theory Spec2Isabelle
  imports Main "HOL-Library.Word" "HOL-Library.AList"
begin

section \<open>Strings\<close>

text \<open>
  A JavaScript string is a finite sequence of 16-bit code units. \<open>js\<close> turns an
  ASCII literal into such a sequence.
\<close>

type_synonym jsstring = "16 word list"

definition js :: "string \<Rightarrow> jsstring" where
  "js s = map of_char s"

text \<open>\<^verbatim>\<open>String.prototype.startsWith\<close>, \<^verbatim>\<open>endsWith\<close> and \<^verbatim>\<open>includes\<close>.\<close>

definition startsWith :: "jsstring \<Rightarrow> jsstring \<Rightarrow> bool" where
  "startsWith s p = (take (length p) s = p)"

definition endsWith :: "jsstring \<Rightarrow> jsstring \<Rightarrow> bool" where
  "endsWith s p = (length p \<le> length s \<and> drop (length s - length p) s = p)"

fun includes_js :: "jsstring \<Rightarrow> jsstring \<Rightarrow> bool" where
  "includes_js [] p = (p = [])"
| "includes_js (c # cs) p = (startsWith (c # cs) p \<or> includes_js cs p)"

text \<open>
  \<^verbatim>\<open>String.prototype.slice(start, end)\<close>: a negative index counts from the end, both
  indices are clamped to the string, and an empty range gives the empty string.
\<close>

definition slice :: "jsstring \<Rightarrow> int \<Rightarrow> int \<Rightarrow> jsstring" where
  "slice s b e =
     (let n = int (length s);
          start = (if b < 0 then max (n + b) 0 else min b n);
          fin = (if e < 0 then max (n + e) 0 else min e n)
      in take (nat (fin - start)) (drop (nat start) s))"

text \<open>\<^verbatim>\<open>s.split("/")\<close> for a one-unit separator, and \<^verbatim>\<open>parts.join(sep)\<close>.\<close>

fun split :: "jsstring \<Rightarrow> 16 word \<Rightarrow> jsstring list" where
  "split [] sep = [[]]"
| "split (c # cs) sep =
     (if c = sep then [] # split cs sep
      else (case split cs sep of w # ws \<Rightarrow> (c # w) # ws | [] \<Rightarrow> [[c]]))"

fun join :: "jsstring list \<Rightarrow> jsstring \<Rightarrow> jsstring" where
  "join [] sep = []"
| "join [x] sep = x"
| "join (x # y # zs) sep = x @ sep @ join (y # zs) sep"

section \<open>Errors\<close>

text \<open>
  An exception is a value of type \<open>error\<close>, and a function that may throw returns
  \<open>error + 'a\<close>. \<open>InvalidValue\<close> is the \<^verbatim>\<open>Error\<close> thrown by \<^verbatim>\<open>encodeValue\<close>,
  \<open>MissingRouteParam\<close> the one thrown by \<^verbatim>\<open>encodeAndFillRoute\<close>, with the name of
  the segment; the other three are the errors of the platform functions. \<open>try_catch\<close>
  is a \<^verbatim>\<open>try\<close> block with its \<^verbatim>\<open>catch\<close> clause.
\<close>

datatype error = InvalidValue | MissingRouteParam jsstring | URIError | TypeError | SyntaxError

definition map_ok :: "('a \<Rightarrow> 'b) \<Rightarrow> error + 'a \<Rightarrow> error + 'b" where
  "map_ok f r = (case r of Inl e \<Rightarrow> Inl e | Inr x \<Rightarrow> Inr (f x))"

definition bind_ok :: "error + 'a \<Rightarrow> ('a \<Rightarrow> error + 'b) \<Rightarrow> error + 'b" where
  "bind_ok r f = (case r of Inl e \<Rightarrow> Inl e | Inr x \<Rightarrow> f x)"

subsection \<open>Numbers\<close>

text \<open>
  The code prints numbers and reads them back, and does no arithmetic. A finite number
  is kept as the decimal \<open>m \<times> 10\<^sup>e\<close> that \<^verbatim>\<open>Number.prototype.toString\<close> prints:
  the digits of \<open>m\<close> are the significant digits and \<open>e\<close> places them. Reading a
  numeric literal is exact here; the platform rounds it to the nearest double, which
  prints as the same decimal when the literal has at most 15 significant digits and the
  double is in range. Negative zero is not kept apart from zero.
\<close>

datatype jsnum = Finite int int | NaN | PosInfinity | NegInfinity

definition digit_unit :: "nat \<Rightarrow> 16 word" where
  "digit_unit d = of_nat (48 + d)"

fun digits :: "nat \<Rightarrow> jsstring" where
  "digits n = (if n < 10 then [digit_unit n] else digits (n div 10) @ [digit_unit (n mod 10)])"

declare digits.simps [simp del]

text \<open>
  \<^verbatim>\<open>Number::toString\<close> for radix 10: with \<open>k\<close> digits and \<open>n = k + e\<close>, plain digits
  for \<open>k \<le> n \<le> 21\<close>, a decimal point inside the digits for \<open>0 < n \<le> 21\<close>, leading
  zeros for \<open>-6 < n \<le> 0\<close>, and the exponent form otherwise.
\<close>

definition numberToString :: "jsnum \<Rightarrow> jsstring" where
  "numberToString x =
     (case x of
        NaN \<Rightarrow> js ''NaN''
      | PosInfinity \<Rightarrow> js ''Infinity''
      | NegInfinity \<Rightarrow> js ''-Infinity''
      | Finite m e \<Rightarrow>
          if m = 0 then js ''0''
          else
            let sign = (if m < 0 then js ''-'' else []);
                ds = digits (nat \<bar>m\<bar>);
                k = int (length ds);
                n = k + e
            in if k \<le> n \<and> n \<le> 21 then sign @ ds @ replicate (nat (n - k)) 48
               else if 0 < n \<and> n \<le> 21 then sign @ take (nat n) ds @ js ''.'' @ drop (nat n) ds
               else if -6 < n \<and> n \<le> 0 then sign @ js ''0.'' @ replicate (nat (- n)) 48 @ ds
               else
                 let x = n - 1;
                     ex = (if x < 0 then js ''-'' else js ''+'') @ digits (nat \<bar>x\<bar>)
                 in if k = 1 then sign @ ds @ js ''e'' @ ex
                    else sign @ take 1 ds @ js ''.'' @ drop 1 ds @ js ''e'' @ ex)"

section \<open>The platform functions\<close>

text \<open>
  \<^verbatim>\<open>encodeURIComponent\<close>, \<^verbatim>\<open>decodeURIComponent\<close>, \<^verbatim>\<open>JSON.stringify\<close> and
  \<^verbatim>\<open>JSON.parse\<close>, after the algorithms of the ECMAScript specification.
\<close>

subsection \<open>Percent-encoding\<close>

text \<open>
  The encoder leaves the unreserved code units as they are and writes every other code
  point as the \<open>%XX\<close> escapes of its UTF-8 octets; a surrogate outside a pair raises
  \<open>URIError\<close>. The decoder copies every code unit but \<open>%\<close>; an escape gives an
  octet, and an octet with leading one bits starts a UTF-8 sequence whose other octets
  must follow as escapes. A malformed escape, and a sequence that is not the UTF-8 form
  of a code point, raise \<open>URIError\<close>.
\<close>

definition uriUnreserved :: "16 word \<Rightarrow> bool" where
  "uriUnreserved c =
     ((0x41 \<le> c \<and> c \<le> 0x5A) \<or> (0x61 \<le> c \<and> c \<le> 0x7A) \<or> (0x30 \<le> c \<and> c \<le> 0x39) \<or>
      c \<in> set (js ''-_.!~*()'') \<or> c = 0x27)"

definition isLeadingSurrogate :: "16 word \<Rightarrow> bool" where
  "isLeadingSurrogate c = (0xD800 \<le> c \<and> c \<le> 0xDBFF)"

definition isTrailingSurrogate :: "16 word \<Rightarrow> bool" where
  "isTrailingSurrogate c = (0xDC00 \<le> c \<and> c \<le> 0xDFFF)"

definition surrogatePairToCodePoint :: "16 word \<Rightarrow> 16 word \<Rightarrow> nat" where
  "surrogatePairToCodePoint lead trail =
     (unat lead - 0xD800) * 0x400 + (unat trail - 0xDC00) + 0x10000"

definition codePointToUTF16 :: "nat \<Rightarrow> jsstring" where
  "codePointToUTF16 cp =
     (if cp < 0x10000 then [of_nat cp]
      else [of_nat (0xD800 + (cp - 0x10000) div 0x400),
            of_nat (0xDC00 + (cp - 0x10000) mod 0x400)])"

definition utf8_encode :: "nat \<Rightarrow> nat list" where
  "utf8_encode cp =
     (if cp < 0x80 then [cp]
      else if cp < 0x800 then [0xC0 + cp div 0x40, 0x80 + cp mod 0x40]
      else if cp < 0x10000 then
        [0xE0 + cp div 0x1000, 0x80 + cp div 0x40 mod 0x40, 0x80 + cp mod 0x40]
      else
        [0xF0 + cp div 0x40000, 0x80 + cp div 0x1000 mod 0x40,
         0x80 + cp div 0x40 mod 0x40, 0x80 + cp mod 0x40])"

definition hexUpper :: "nat \<Rightarrow> 16 word" where
  "hexUpper d = (if d < 10 then of_nat (48 + d) else of_nat (55 + d))"

definition percent :: "nat \<Rightarrow> jsstring" where
  "percent b = [0x25, hexUpper (b div 16), hexUpper (b mod 16)]"

fun encodeURIComponent :: "jsstring \<Rightarrow> error + jsstring" where
  "encodeURIComponent [] = Inr []"
| "encodeURIComponent (c # cs) =
     (if uriUnreserved c then map_ok (\<lambda>r. c # r) (encodeURIComponent cs)
      else if isLeadingSurrogate c then
        (case cs of
           [] \<Rightarrow> Inl URIError
         | d # ds \<Rightarrow>
             if isTrailingSurrogate d
             then map_ok (\<lambda>r. concat (map percent (utf8_encode (surrogatePairToCodePoint c d))) @ r)
                    (encodeURIComponent ds)
             else Inl URIError)
      else if isTrailingSurrogate c then Inl URIError
      else map_ok (\<lambda>r. concat (map percent (utf8_encode (unat c))) @ r)
             (encodeURIComponent cs))"

definition hexValue :: "16 word \<Rightarrow> nat option" where
  "hexValue c =
     (if 0x30 \<le> c \<and> c \<le> 0x39 then Some (unat c - 0x30)
      else if 0x41 \<le> c \<and> c \<le> 0x46 then Some (unat c - 0x41 + 10)
      else if 0x61 \<le> c \<and> c \<le> 0x66 then Some (unat c - 0x61 + 10)
      else None)"

definition parseHexOctet :: "jsstring \<Rightarrow> nat option" where
  "parseHexOctet s =
     (case s of
        h # l # _ \<Rightarrow>
          (case hexValue h of
             None \<Rightarrow> None
           | Some a \<Rightarrow> (case hexValue l of None \<Rightarrow> None | Some b \<Rightarrow> Some (16 * a + b)))
      | _ \<Rightarrow> None)"

definition leadingOnes :: "nat \<Rightarrow> nat" where
  "leadingOnes b =
     (if b < 0x80 then 0 else if b < 0xC0 then 1 else if b < 0xE0 then 2
      else if b < 0xF0 then 3 else if b < 0xF8 then 4 else 5)"

fun continuationOctets :: "nat \<Rightarrow> jsstring \<Rightarrow> nat list option" where
  "continuationOctets 0 s = Some []"
| "continuationOctets (Suc j) [] = None"
| "continuationOctets (Suc j) (c # cs) =
     (if c = 0x25 then
        (case parseHexOctet cs of
           None \<Rightarrow> None
         | Some b \<Rightarrow> map_option (\<lambda>bs. b # bs) (continuationOctets j (drop 2 cs)))
      else None)"

definition isContinuation :: "nat \<Rightarrow> bool" where
  "isContinuation b = (0x80 \<le> b \<and> b < 0xC0)"

definition utf8_decode :: "nat list \<Rightarrow> nat option" where
  "utf8_decode bs =
     (case bs of
        [b0, b1] \<Rightarrow>
          (let v = (b0 - 0xC0) * 0x40 + (b1 - 0x80)
           in if isContinuation b1 \<and> 0x80 \<le> v then Some v else None)
      | [b0, b1, b2] \<Rightarrow>
          (let v = (b0 - 0xE0) * 0x1000 + (b1 - 0x80) * 0x40 + (b2 - 0x80)
           in if isContinuation b1 \<and> isContinuation b2 \<and> 0x800 \<le> v \<and>
                 (v < 0xD800 \<or> 0xDFFF < v)
              then Some v else None)
      | [b0, b1, b2, b3] \<Rightarrow>
          (let v = (b0 - 0xF0) * 0x40000 + (b1 - 0x80) * 0x1000 + (b2 - 0x80) * 0x40 + (b3 - 0x80)
           in if isContinuation b1 \<and> isContinuation b2 \<and> isContinuation b3 \<and>
                 0x10000 \<le> v \<and> v \<le> 0x10FFFF
              then Some v else None)
      | _ \<Rightarrow> None)"

fun decodeURIComponent :: "jsstring \<Rightarrow> error + jsstring" where
  "decodeURIComponent [] = Inr []"
| "decodeURIComponent (c # cs) =
     (if c \<noteq> 0x25 then map_ok (\<lambda>r. c # r) (decodeURIComponent cs)
      else
        (case parseHexOctet cs of
           None \<Rightarrow> Inl URIError
         | Some b \<Rightarrow>
             let n = leadingOnes b
             in if n = 0 then map_ok (\<lambda>r. of_nat b # r) (decodeURIComponent (drop 2 cs))
                else if n = 1 \<or> 4 < n then Inl URIError
                else
                  (case continuationOctets (n - 1) (drop 2 cs) of
                     None \<Rightarrow> Inl URIError
                   | Some bs \<Rightarrow>
                       (case utf8_decode (b # bs) of
                          None \<Rightarrow> Inl URIError
                        | Some v \<Rightarrow>
                            map_ok (\<lambda>r. codePointToUTF16 v @ r)
                              (decodeURIComponent (drop (2 + 3 * (n - 1)) cs))))))"

subsection \<open>Values\<close>

text \<open>
  The values of the language, as far as the code tells them apart. An object is the list
  of its own enumerable properties in enumeration order; a property is read with
  \<open>map_of\<close> and written with \<open>createDataProperty\<close>, which keeps the place of a key that
  is already there. Inherited properties, accessors and cyclic structures are outside
  the model.
\<close>

datatype jsval =
    JUndefined
  | JNull
  | JBool bool
  | JNum jsnum
  | JBigInt int
  | JStr jsstring
  | JSymbol
  | JFunction
  | JArr "jsval list"
  | JObj "(jsstring \<times> jsval) list"

datatype jstype =
  TUndefined | TObject | TBoolean | TNumber | TBigInt | TString | TSymbol | TFunction

fun typeof :: "jsval \<Rightarrow> jstype" where
  "typeof JUndefined = TUndefined"
| "typeof JNull = TObject"
| "typeof (JBool b) = TBoolean"
| "typeof (JNum n) = TNumber"
| "typeof (JBigInt i) = TBigInt"
| "typeof (JStr s) = TString"
| "typeof JSymbol = TSymbol"
| "typeof JFunction = TFunction"
| "typeof (JArr xs) = TObject"
| "typeof (JObj ps) = TObject"

fun isArray :: "jsval \<Rightarrow> bool" where
  "isArray (JArr xs) = True"
| "isArray v = False"

subsection \<open>JSON.stringify\<close>

text \<open>
  \<^verbatim>\<open>QuoteJSONString\<close> escapes the quote, the backslash, the control characters and every
  surrogate outside a pair. \<^verbatim>\<open>SerializeJSONProperty\<close> gives no text (\<open>None\<close>) for
  \<open>undefined\<close>, a symbol and a function; in an array they are written \<open>null\<close>, in an
  object the property is skipped. A number that is not finite is written \<open>null\<close>, and a
  BigInt raises \<open>TypeError\<close>.
\<close>

definition hexLower :: "nat \<Rightarrow> 16 word" where
  "hexLower d = (if d < 10 then of_nat (48 + d) else of_nat (87 + d))"

definition unicodeEscape :: "16 word \<Rightarrow> jsstring" where
  "unicodeEscape c =
     (let n = unat c
      in js [CHR 0x5C, CHR ''u''] @
         [hexLower (n div 0x1000), hexLower (n div 0x100 mod 0x10),
          hexLower (n div 0x10 mod 0x10), hexLower (n mod 0x10)])"

definition quoteUnit :: "16 word \<Rightarrow> jsstring" where
  "quoteUnit c =
     (if c = 0x08 then js [CHR 0x5C, CHR ''b'']
      else if c = 0x09 then js [CHR 0x5C, CHR ''t'']
      else if c = 0x0A then js [CHR 0x5C, CHR ''n'']
      else if c = 0x0C then js [CHR 0x5C, CHR ''f'']
      else if c = 0x0D then js [CHR 0x5C, CHR ''r'']
      else if c = 0x22 then js [CHR 0x5C, CHR 0x22]
      else if c = 0x5C then js [CHR 0x5C, CHR 0x5C]
      else if c < 0x20 then unicodeEscape c
      else [c])"

fun quoteUnits :: "jsstring \<Rightarrow> jsstring" where
  "quoteUnits [] = []"
| "quoteUnits [c] =
     (if isLeadingSurrogate c \<or> isTrailingSurrogate c then unicodeEscape c else quoteUnit c)"
| "quoteUnits (c # d # ds) =
     (if isLeadingSurrogate c then
        (if isTrailingSurrogate d then c # d # quoteUnits ds
         else unicodeEscape c @ quoteUnits (d # ds))
      else if isTrailingSurrogate c then unicodeEscape c @ quoteUnits (d # ds)
      else quoteUnit c @ quoteUnits (d # ds))"

definition quoteJSONString :: "jsstring \<Rightarrow> jsstring" where
  "quoteJSONString s = [0x22] @ quoteUnits s @ [0x22]"

fun isFinite :: "jsnum \<Rightarrow> bool" where
  "isFinite (Finite m e) = True"
| "isFinite x = False"

fun serializeJSONProperty :: "jsval \<Rightarrow> error + jsstring option"
  and serializeJSONArray :: "jsval list \<Rightarrow> error + jsstring list"
  and serializeJSONObject :: "(jsstring \<times> jsval) list \<Rightarrow> error + jsstring list"
where
  "serializeJSONProperty JNull = Inr (Some (js ''null''))"
| "serializeJSONProperty (JBool b) = Inr (Some (if b then js ''true'' else js ''false''))"
| "serializeJSONProperty (JStr s) = Inr (Some (quoteJSONString s))"
| "serializeJSONProperty (JNum x) =
     Inr (Some (if isFinite x then numberToString x else js ''null''))"
| "serializeJSONProperty (JBigInt i) = Inl TypeError"
| "serializeJSONProperty (JArr xs) =
     map_ok (\<lambda>parts. Some (js ''['' @ join parts (js '','') @ js '']''))
       (serializeJSONArray xs)"
| "serializeJSONProperty (JObj ps) =
     map_ok (\<lambda>parts. Some (js ''{'' @ join parts (js '','') @ js ''}''))
       (serializeJSONObject ps)"
| "serializeJSONProperty JUndefined = Inr None"
| "serializeJSONProperty JSymbol = Inr None"
| "serializeJSONProperty JFunction = Inr None"
| "serializeJSONArray [] = Inr []"
| "serializeJSONArray (x # xs) =
     bind_ok (serializeJSONProperty x) (\<lambda>str.
       map_ok (\<lambda>parts. (case str of None \<Rightarrow> js ''null'' | Some t \<Rightarrow> t) # parts)
         (serializeJSONArray xs))"
| "serializeJSONObject [] = Inr []"
| "serializeJSONObject ((k, v) # ps) =
     bind_ok (serializeJSONProperty v) (\<lambda>str.
       map_ok (\<lambda>parts. (case str of None \<Rightarrow> parts
                                   | Some t \<Rightarrow> (quoteJSONString k @ js '':'' @ t) # parts))
         (serializeJSONObject ps))"

definition JSON_stringify :: "jsval \<Rightarrow> error + jsstring option" where
  "JSON_stringify v = serializeJSONProperty v"

subsection \<open>JSON.parse\<close>

text \<open>
  A recursive-descent parser of the JSON grammar. Every parsing function returns the
  value read and the rest of the text, or \<open>None\<close> where the platform raises
  \<open>SyntaxError\<close>. The functions for values, elements and members call one another, so
  they take a bound on the number of nested calls: \<open>JSON_parse\<close> gives them twice the
  length of the text and one more, since every call but the first follows a code unit
  that was read.
\<close>

definition isWhiteSpace :: "16 word \<Rightarrow> bool" where
  "isWhiteSpace c = (c = 0x20 \<or> c = 0x09 \<or> c = 0x0A \<or> c = 0x0D)"

definition skipWhiteSpace :: "jsstring \<Rightarrow> jsstring" where
  "skipWhiteSpace s = dropWhile isWhiteSpace s"

definition isDigit :: "16 word \<Rightarrow> bool" where
  "isDigit c = (0x30 \<le> c \<and> c \<le> 0x39)"

definition digitsValue :: "jsstring \<Rightarrow> nat" where
  "digitsValue ds = foldl (\<lambda>a c. 10 * a + (unat c - 0x30)) 0 ds"

function normalizeNumber :: "int \<Rightarrow> int \<Rightarrow> jsnum" where
  "normalizeNumber m e =
     (if m = 0 then Finite 0 0
      else if m mod 10 = 0 then normalizeNumber (m div 10) (e + 1)
      else Finite m e)"
  by pat_completeness auto
termination
  by (relation "measure (\<lambda>(m, e). nat \<bar>m\<bar>)") auto

declare normalizeNumber.simps [simp del]

definition parseFraction :: "jsstring \<Rightarrow> (jsstring \<times> jsstring) option" where
  "parseFraction s =
     (case s of
        [] \<Rightarrow> Some ([], s)
      | c # cs \<Rightarrow>
          if c = 0x2E then
            (if takeWhile isDigit cs = [] then None
             else Some (takeWhile isDigit cs, dropWhile isDigit cs))
          else Some ([], s))"

definition parseExponent :: "jsstring \<Rightarrow> (int \<times> jsstring) option" where
  "parseExponent s =
     (case s of
        [] \<Rightarrow> Some (0, s)
      | c # cs \<Rightarrow>
          if c = 0x65 \<or> c = 0x45 then
            (let neg = (case cs of [] \<Rightarrow> False | d # _ \<Rightarrow> d = 0x2D);
                 signed = (case cs of [] \<Rightarrow> False | d # _ \<Rightarrow> d = 0x2D \<or> d = 0x2B);
                 ds = (if signed then drop 1 cs else cs)
             in if takeWhile isDigit ds = [] then None
                else Some ((if neg then - int (digitsValue (takeWhile isDigit ds))
                            else int (digitsValue (takeWhile isDigit ds))),
                           dropWhile isDigit ds))
          else Some (0, s))"

definition parseNumber :: "jsstring \<Rightarrow> (jsnum \<times> jsstring) option" where
  "parseNumber s =
     (let neg = (case s of [] \<Rightarrow> False | c # _ \<Rightarrow> c = 0x2D);
          s1 = (if neg then drop 1 s else s)
      in case s1 of
           [] \<Rightarrow> None
         | c # cs \<Rightarrow>
             if isDigit c then
               (let ip = (if c = 0x30 then [c] else c # takeWhile isDigit cs);
                    r = (if c = 0x30 then cs else dropWhile isDigit cs)
                in case parseFraction r of
                     None \<Rightarrow> None
                   | Some (fs, r1) \<Rightarrow>
                       (case parseExponent r1 of
                          None \<Rightarrow> None
                        | Some (ex, r2) \<Rightarrow>
                            Some (normalizeNumber
                                    ((if neg then -1 else 1) * int (digitsValue (ip @ fs)))
                                    (ex - int (length fs)),
                                  r2)))
             else None)"

definition simpleEscape :: "16 word \<Rightarrow> 16 word option" where
  "simpleEscape e =
     (if e = 0x22 then Some 0x22
      else if e = 0x5C then Some 0x5C
      else if e = 0x2F then Some 0x2F
      else if e = 0x62 then Some 0x08
      else if e = 0x66 then Some 0x0C
      else if e = 0x6E then Some 0x0A
      else if e = 0x72 then Some 0x0D
      else if e = 0x74 then Some 0x09
      else None)"

definition parseHex4 :: "jsstring \<Rightarrow> 16 word option" where
  "parseHex4 s =
     (case s of
        a # b # c # d # _ \<Rightarrow>
          (case (hexValue a, hexValue b, hexValue c, hexValue d) of
             (Some x, Some y, Some z, Some w) \<Rightarrow>
               Some (of_nat (x * 0x1000 + y * 0x100 + z * 0x10 + w))
           | _ \<Rightarrow> None)
      | _ \<Rightarrow> None)"

definition consUnit :: "16 word \<Rightarrow> (jsstring \<times> jsstring) option \<Rightarrow> (jsstring \<times> jsstring) option" where
  "consUnit c r = map_option (\<lambda>(str, rest). (c # str, rest)) r"

fun parseStringChars :: "jsstring \<Rightarrow> (jsstring \<times> jsstring) option" where
  "parseStringChars [] = None"
| "parseStringChars (c # cs) =
     (if c = 0x22 then Some ([], cs)
      else if c = 0x5C then
        (case cs of
           [] \<Rightarrow> None
         | e # es \<Rightarrow>
             if e = 0x75 then
               (case parseHex4 es of
                  None \<Rightarrow> None
                | Some u \<Rightarrow> consUnit u (parseStringChars (drop 4 es)))
             else
               (case simpleEscape e of
                  None \<Rightarrow> None
                | Some u \<Rightarrow> consUnit u (parseStringChars es)))
      else if c < 0x20 then None
      else consUnit c (parseStringChars cs))"

definition createDataProperty :: "(jsstring \<times> jsval) list \<Rightarrow> jsstring \<times> jsval \<Rightarrow> (jsstring \<times> jsval) list" where
  "createDataProperty obj p = AList.update (fst p) (snd p) obj"

fun parseValue :: "nat \<Rightarrow> jsstring \<Rightarrow> (jsval \<times> jsstring) option"
  and parseElements :: "nat \<Rightarrow> jsstring \<Rightarrow> (jsval list \<times> jsstring) option"
  and parseMembers :: "nat \<Rightarrow> jsstring \<Rightarrow> ((jsstring \<times> jsval) list \<times> jsstring) option"
where
  "parseValue 0 s = None"
| "parseValue (Suc f) s =
     (case s of
        [] \<Rightarrow> None
      | c # cs \<Rightarrow>
          if c = 0x5B then
            (case skipWhiteSpace cs of
               [] \<Rightarrow> None
             | d # ds \<Rightarrow>
                 if d = 0x5D then Some (JArr [], ds)
                 else map_option (\<lambda>(xs, r). (JArr xs, r)) (parseElements f (d # ds)))
          else if c = 0x7B then
            (case skipWhiteSpace cs of
               [] \<Rightarrow> None
             | d # ds \<Rightarrow>
                 if d = 0x7D then Some (JObj [], ds)
                 else map_option (\<lambda>(ps, r). (JObj (foldl createDataProperty [] ps), r))
                        (parseMembers f (d # ds)))
          else if c = 0x22 then map_option (\<lambda>(str, r). (JStr str, r)) (parseStringChars cs)
          else if startsWith s (js ''true'') then Some (JBool True, drop 4 s)
          else if startsWith s (js ''false'') then Some (JBool False, drop 5 s)
          else if startsWith s (js ''null'') then Some (JNull, drop 4 s)
          else map_option (\<lambda>(x, r). (JNum x, r)) (parseNumber s))"
| "parseElements 0 s = None"
| "parseElements (Suc f) s =
     (case parseValue f s of
        None \<Rightarrow> None
      | Some (v, r) \<Rightarrow>
          (case skipWhiteSpace r of
             [] \<Rightarrow> None
           | c # cs \<Rightarrow>
               if c = 0x2C then
                 map_option (\<lambda>(vs, r'). (v # vs, r')) (parseElements f (skipWhiteSpace cs))
               else if c = 0x5D then Some ([v], cs)
               else None))"
| "parseMembers 0 s = None"
| "parseMembers (Suc f) s =
     (case s of
        [] \<Rightarrow> None
      | c # cs \<Rightarrow>
          if c = 0x22 then
            (case parseStringChars cs of
               None \<Rightarrow> None
             | Some (k, r) \<Rightarrow>
                 (case skipWhiteSpace r of
                    [] \<Rightarrow> None
                  | d # ds \<Rightarrow>
                      if d = 0x3A then
                        (case parseValue f (skipWhiteSpace ds) of
                           None \<Rightarrow> None
                         | Some (v, r') \<Rightarrow>
                             (case skipWhiteSpace r' of
                                [] \<Rightarrow> None
                              | e # es \<Rightarrow>
                                  if e = 0x2C then
                                    map_option (\<lambda>(ps, r''). ((k, v) # ps, r''))
                                      (parseMembers f (skipWhiteSpace es))
                                  else if e = 0x7D then Some ([(k, v)], es)
                                  else None))
                      else None))
          else None)"

definition JSON_parse :: "jsstring \<Rightarrow> error + jsval" where
  "JSON_parse text =
     (case parseValue (2 * length text + 1) (skipWhiteSpace text) of
        None \<Rightarrow> Inl SyntaxError
      | Some (v, r) \<Rightarrow> if skipWhiteSpace r = [] then Inr v else Inl SyntaxError)"

section \<open>Segments of a route\<close>

datatype segment_type = Static | Dynamic | CatchAll | OptionalCatchAll

record Segment =
  type :: segment_type
  "value" :: jsstring

definition parseSegment :: "jsstring \<Rightarrow> Segment" where
  "parseSegment segment =
     (if startsWith segment (js ''['') \<and> endsWith segment (js '']'') \<and>
         \<not> includes_js segment (js ''...'')
      then \<lparr>type = Dynamic, value = slice segment 1 (-1)\<rparr>
      else if startsWith segment (js ''[['') \<and> endsWith segment (js '']]'') \<and>
         includes_js segment (js ''...'')
      then \<lparr>type = OptionalCatchAll, value = slice segment 5 (-2)\<rparr>
      else if startsWith segment (js ''['') \<and> endsWith segment (js '']'') \<and>
         includes_js segment (js ''...'')
      then \<lparr>type = CatchAll, value = slice segment 4 (-1)\<rparr>
      else \<lparr>type = Static, value = segment\<rparr>)"

text \<open>
  The classifier as the specification words it: the rules in the order optional
  catch-all, catch-all, dynamic, static, the name being the text between the opening
  and the closing delimiter.
\<close>

definition between :: "nat \<Rightarrow> nat \<Rightarrow> jsstring \<Rightarrow> jsstring" where
  "between n m s = take (length s - n - m) (drop n s)"

definition classify_spec :: "jsstring \<Rightarrow> Segment" where
  "classify_spec segment =
     (if startsWith segment (js ''[['') \<and> endsWith segment (js '']]'') \<and>
         includes_js segment (js ''...'')
      then \<lparr>type = OptionalCatchAll, value = between 5 2 segment\<rparr>
      else if startsWith segment (js ''['') \<and> endsWith segment (js '']'') \<and>
         includes_js segment (js ''...'')
      then \<lparr>type = CatchAll, value = between 4 1 segment\<rparr>
      else if startsWith segment (js ''['') \<and> endsWith segment (js '']'') \<and>
         \<not> includes_js segment (js ''...'')
      then \<lparr>type = Dynamic, value = between 1 1 segment\<rparr>
      else \<lparr>type = Static, value = segment\<rparr>)"

section \<open>Objects, coercions and control\<close>

text \<open>
  Reading a property, the spread of two objects into a new one, \<^verbatim>\<open>Array.prototype.map\<close>
  with a function that may throw (\<open>traverse\<close>), and \<^verbatim>\<open>ToString\<close> on the primitive
  values. The code applies \<^verbatim>\<open>ToString\<close> to strings, numbers and booleans only.
\<close>

type_synonym jsobject = "(jsstring \<times> jsval) list"

definition getProperty :: "jsobject \<Rightarrow> jsstring \<Rightarrow> jsval" where
  "getProperty obj k = (case map_of obj k of None \<Rightarrow> JUndefined | Some v \<Rightarrow> v)"

definition spread :: "jsobject \<Rightarrow> jsobject \<Rightarrow> jsobject" where
  "spread a b = foldl createDataProperty (foldl createDataProperty [] a) b"

fun traverse :: "('a \<Rightarrow> error + 'b) \<Rightarrow> 'a list \<Rightarrow> error + 'b list" where
  "traverse f [] = Inr []"
| "traverse f (x # xs) = bind_ok (f x) (\<lambda>y. map_ok (\<lambda>ys. y # ys) (traverse f xs))"

definition try_catch :: "error + 'a \<Rightarrow> (error \<Rightarrow> error + 'a) \<Rightarrow> error + 'a" where
  "try_catch body handler = (case body of Inl e \<Rightarrow> handler e | Inr x \<Rightarrow> Inr x)"

fun toString :: "jsval \<Rightarrow> jsstring" where
  "toString (JStr s) = s"
| "toString (JNum x) = numberToString x"
| "toString (JBool b) = (if b then js ''true'' else js ''false'')"
| "toString JNull = js ''null''"
| "toString JUndefined = js ''undefined''"
| "toString v = []"

fun elements :: "jsval \<Rightarrow> jsval list" where
  "elements (JArr xs) = xs"
| "elements v = []"

section \<open>The value codec\<close>

text \<open>
  \<^verbatim>\<open>encodeValue\<close>, \<^verbatim>\<open>generateParamStringFromSearchParamObj\<close> (its loop is
  \<open>paramStrings\<close>), \<^verbatim>\<open>safeJSONParse\<close> and \<^verbatim>\<open>parseOrMapParse\<close>. A raw value of the
  query is a string or an array of strings; \<open>undefined\<close> is \<open>None\<close>.
\<close>

definition encodeValue :: "jsval \<Rightarrow> error + jsstring" where
  "encodeValue v =
     (if typeof v = TString \<and> v \<noteq> JStr [] then encodeURIComponent (toString v)
      else if typeof v = TNumber \<or> typeof v = TBoolean then encodeURIComponent (toString v)
      else if isArray v \<or> typeof v = TObject \<or> v = JNull then
        bind_ok (JSON_stringify v)
          (\<lambda>t. encodeURIComponent (case t of None \<Rightarrow> js ''undefined'' | Some str \<Rightarrow> str))
      else Inl InvalidValue)"

fun paramStrings :: "jsobject \<Rightarrow> error + jsstring list" where
  "paramStrings [] = Inr []"
| "paramStrings ((key, v) # entries) =
     bind_ok (if v = JUndefined then Inr key
              else map_ok (\<lambda>t. key @ js ''='' @ t) (encodeValue v))
       (\<lambda>p. map_ok (\<lambda>params. p # params) (paramStrings entries))"

definition generateParamStringFromSearchParamObj :: "jsobject \<Rightarrow> error + jsstring" where
  "generateParamStringFromSearchParamObj obj =
     map_ok (\<lambda>params.
         let finalString = js ''?'' @ join params (js ''&'')
         in if finalString = js ''?'' then [] else finalString)
       (paramStrings obj)"

definition safeJSONParse :: "jsstring option \<Rightarrow> error + jsval" where
  "safeJSONParse v =
     (case v of
        None \<Rightarrow> Inr JUndefined
      | Some s \<Rightarrow> try_catch (bind_ok (decodeURIComponent s) JSON_parse) (\<lambda>e. Inr (JStr s)))"

datatype query_value = QString jsstring | QArray "jsstring list"

definition parseOrMapParse :: "query_value option \<Rightarrow> error + jsval" where
  "parseOrMapParse obj =
     (case obj of
        Some (QArray xs) \<Rightarrow> map_ok JArr (traverse (\<lambda>x. safeJSONParse (Some x)) xs)
      | Some (QString s) \<Rightarrow> safeJSONParse (Some s)
      | None \<Rightarrow> safeJSONParse None)"

section \<open>Reading the parameters of a route\<close>

text \<open>
  \<^verbatim>\<open>getDynamicRouteParams\<close>: the three filters with their slices, the loop over the
  catch-all names, the loop over the dynamic names, and the spread of the two results.
\<close>

type_synonym query = "(jsstring \<times> query_value) list"

fun parseCatchAll :: "query \<Rightarrow> jsstring list \<Rightarrow> jsobject \<Rightarrow> error + jsobject" where
  "parseCatchAll q [] parsedCatchAll = Inr parsedCatchAll"
| "parseCatchAll q (name # names) parsedCatchAll =
     bind_ok (parseOrMapParse (map_of q name)) (\<lambda>result.
       parseCatchAll q names
         (createDataProperty parsedCatchAll
            (name, if isArray result then result else JArr [result])))"

fun parseNonCatchAll :: "query \<Rightarrow> jsstring list \<Rightarrow> jsobject \<Rightarrow> error + jsobject" where
  "parseNonCatchAll q [] parsedNonCatchAll = Inr parsedNonCatchAll"
| "parseNonCatchAll q (name # names) parsedNonCatchAll =
     bind_ok (parseOrMapParse (map_of q name)) (\<lambda>result.
       parseNonCatchAll q names (createDataProperty parsedNonCatchAll (name, result)))"

definition dynamicParamNames :: "jsstring \<Rightarrow> jsstring list" where
  "dynamicParamNames path =
     map (\<lambda>segment. slice segment 1 (-1))
       (filter (\<lambda>segment. startsWith segment (js ''['') \<and> endsWith segment (js '']'') \<and>
                  \<not> includes_js segment (js ''...''))
          (split path 0x2F))"

definition optionalCatchAllParamNames :: "jsstring \<Rightarrow> jsstring list" where
  "optionalCatchAllParamNames path =
     map (\<lambda>segment. slice segment 5 (-2))
       (filter (\<lambda>segment. startsWith segment (js ''[['') \<and> endsWith segment (js '']]'') \<and>
                  includes_js segment (js ''...''))
          (split path 0x2F))"

definition catchAllParamNames :: "jsstring \<Rightarrow> jsstring list" where
  "catchAllParamNames path =
     map (\<lambda>segment. slice segment 4 (-1))
       (filter (\<lambda>segment. startsWith segment (js ''['') \<and> endsWith segment (js '']'') \<and>
                  includes_js segment (js ''...''))
          (split path 0x2F))"

definition getDynamicRouteParams :: "jsstring \<Rightarrow> query \<Rightarrow> error + jsobject" where
  "getDynamicRouteParams path q =
     (let allCatchAllNames = optionalCatchAllParamNames path @ catchAllParamNames path
      in bind_ok (parseCatchAll q allCatchAllNames []) (\<lambda>parsedCatchAll.
           bind_ok (parseNonCatchAll q (dynamicParamNames path) []) (\<lambda>parsedNonCatchAll.
             Inr (spread parsedNonCatchAll parsedCatchAll))))"

section \<open>Building a path\<close>

text \<open>
  \<^verbatim>\<open>encodeAndFillRoute\<close> (\<open>fillSegment\<close> is the body of its loop and gives the parts
  pushed for one segment) and \<^verbatim>\<open>$path\<close>, here \<open>path\<close>.
\<close>

definition fillSegment :: "jsobject \<Rightarrow> Segment \<Rightarrow> error + jsstring list" where
  "fillSegment routeParams segment =
     (let paramValue = getProperty routeParams (value segment)
      in case type segment of
           Static \<Rightarrow> Inr [value segment]
         | Dynamic \<Rightarrow>
             if paramValue \<noteq> JUndefined then map_ok (\<lambda>t. [t]) (encodeValue paramValue)
             else Inl (MissingRouteParam (value segment))
         | CatchAll \<Rightarrow>
             if isArray paramValue then traverse encodeValue (elements paramValue)
             else if paramValue \<noteq> JUndefined then map_ok (\<lambda>t. [t]) (encodeValue paramValue)
             else Inl (MissingRouteParam (value segment))
         | OptionalCatchAll \<Rightarrow>
             if isArray paramValue then traverse encodeValue (elements paramValue)
             else if paramValue \<noteq> JUndefined then map_ok (\<lambda>t. [t]) (encodeValue paramValue)
             else Inr [])"

fun fillSegments :: "jsobject \<Rightarrow> Segment list \<Rightarrow> error + jsstring list" where
  "fillSegments routeParams [] = Inr []"
| "fillSegments routeParams (segment # parsed) =
     bind_ok (fillSegment routeParams segment) (\<lambda>pushed.
       map_ok (\<lambda>parts. pushed @ parts) (fillSegments routeParams parsed))"

definition encodeAndFillRoute :: "jsstring \<Rightarrow> jsobject \<Rightarrow> error + jsstring" where
  "encodeAndFillRoute route routeParams =
     map_ok (\<lambda>parts. join parts (js ''/''))
       (fillSegments routeParams (map parseSegment (split route 0x2F)))"

record PathOptions =
  route :: jsstring
  searchParams :: "jsobject option"
  routeParams :: "jsobject option"

definition path :: "PathOptions \<Rightarrow> error + jsstring" where
  "path opts =
     (case (searchParams opts, routeParams opts) of
        (Some sp, Some rp) \<Rightarrow>
          bind_ok (generateParamStringFromSearchParamObj sp) (\<lambda>searchString.
            bind_ok (encodeAndFillRoute (route opts) rp) (\<lambda>routeString.
              Inr (routeString @ searchString)))
      | (None, Some rp) \<Rightarrow> encodeAndFillRoute (route opts) rp
      | (Some sp, None) \<Rightarrow>
          bind_ok (generateParamStringFromSearchParamObj sp) (\<lambda>searchString.
            Inr (route opts @ searchString))
      | (None, None) \<Rightarrow> Inr (route opts))"

section \<open>Predicates used in the statements\<close>

text \<open>
  \<^verbatim>\<open>String.prototype.isWellFormed\<close>: no surrogate code unit stands outside a pair of
  a leading and a trailing one.
\<close>

fun wellFormed :: "jsstring \<Rightarrow> bool" where
  "wellFormed [] = True"
| "wellFormed [c] = (\<not> isLeadingSurrogate c \<and> \<not> isTrailingSurrogate c)"
| "wellFormed (c # d # ds) =
     (if isLeadingSurrogate c then isTrailingSurrogate d \<and> wellFormed ds
      else \<not> isTrailingSurrogate c \<and> wellFormed (d # ds))"

text \<open>A BigInt among the elements and property values that JSON.stringify visits.\<close>

fun hasBigInt :: "jsval \<Rightarrow> bool"
  and hasBigIntElements :: "jsval list \<Rightarrow> bool"
  and hasBigIntProperties :: "(jsstring \<times> jsval) list \<Rightarrow> bool"
where
  "hasBigInt (JBigInt i) = True"
| "hasBigInt (JArr xs) = hasBigIntElements xs"
| "hasBigInt (JObj ps) = hasBigIntProperties ps"
| "hasBigInt JUndefined = False"
| "hasBigInt JNull = False"
| "hasBigInt (JBool b) = False"
| "hasBigInt (JNum x) = False"
| "hasBigInt (JStr s) = False"
| "hasBigInt JSymbol = False"
| "hasBigInt JFunction = False"
| "hasBigIntElements [] = False"
| "hasBigIntElements (x # xs) = (hasBigInt x \<or> hasBigIntElements xs)"
| "hasBigIntProperties [] = False"
| "hasBigIntProperties ((k, v) # ps) = (hasBigInt v \<or> hasBigIntProperties ps)"




text \<open>
  The first code unit of a serialized value: not white space and no closing bracket or
  brace.
\<close>

definition valueStart :: "jsstring \<Rightarrow> bool" where
  "valueStart s =
     (case s of [] \<Rightarrow> False | c # _ \<Rightarrow> \<not> isWhiteSpace c \<and> c \<noteq> 0x5D \<and> c \<noteq> 0x7D)"


text \<open>The number of delimiter code units of each kind of segment.\<close>

definition delimiters :: "segment_type \<Rightarrow> nat" where
  "delimiters t = (case t of Static \<Rightarrow> 0 | Dynamic \<Rightarrow> 2 | CatchAll \<Rightarrow> 5 | OptionalCatchAll \<Rightarrow> 7)"

section \<open>Properties of the string primitives\<close>

lemma includes_iff: "includes_js s p \<longleftrightarrow> (\<exists>xs ys. s = xs @ p @ ys)"
proof (induction s)
  case Nil
  then show ?case by auto
next
  case (Cons c cs)
  show ?case
  proof
    assume "includes_js (c # cs) p"
    then consider "startsWith (c # cs) p" | "includes_js cs p" by auto
    then show "\<exists>xs ys. c # cs = xs @ p @ ys"
    proof cases
      case 1
      then have "c # cs = [] @ p @ drop (length p) (c # cs)"
        unfolding startsWith_def by (metis append_Nil append_take_drop_id)
      then show ?thesis by blast
    next
      case 2
      then obtain xs ys where "cs = xs @ p @ ys" using Cons.IH by blast
      then have "c # cs = (c # xs) @ p @ ys" by simp
      then show ?thesis by blast
    qed
  next
    assume "\<exists>xs ys. c # cs = xs @ p @ ys"
    then obtain xs ys where e: "c # cs = xs @ p @ ys" by blast
    show "includes_js (c # cs) p"
    proof (cases xs)
      case Nil
      with e have "startsWith (c # cs) p" by (simp add: startsWith_def)
      then show ?thesis by simp
    next
      case (Cons x xs')
      with e have "cs = xs' @ p @ ys" by simp
      then have "includes_js cs p" using Cons.IH by blast
      then show ?thesis by simp
    qed
  qed
qed

lemma startsWith_bracket: "startsWith s (js ''['') \<longleftrightarrow> (\<exists>t. s = 91 # t)"
  by (cases s) (auto simp: startsWith_def js_def)

lemma endsWith_bracket: "endsWith s (js '']'') \<longleftrightarrow> (\<exists>t. s = t @ [93])"
proof
  assume "endsWith s (js '']'')"
  then have l: "1 \<le> length s" and d: "drop (length s - 1) s = [93]"
    by (simp_all add: endsWith_def js_def)
  have "s = take (length s - 1) s @ drop (length s - 1) s" by simp
  with d show "\<exists>t. s = t @ [93]" by metis
next
  assume "\<exists>t. s = t @ [93]"
  then show "endsWith s (js '']'')" by (auto simp: endsWith_def js_def)
qed

text \<open>A segment in brackets has at least the delimiters' length.\<close>

lemma dynamic_length:
  assumes "startsWith s (js ''['')" "endsWith s (js '']'')"
  shows "2 \<le> length s"
proof -
  obtain t where t: "s = 91 # t" using assms(1) startsWith_bracket by blast
  obtain u where u: "s = u @ [93]" using assms(2) endsWith_bracket by blast
  show ?thesis using t u by (cases t) auto
qed

lemma catchAll_length:
  assumes "startsWith s (js ''['')" "endsWith s (js '']'')" "includes_js s (js ''...'')"
  shows "5 \<le> length s"
proof -
  obtain xs ys where s: "s = xs @ js ''...'' @ ys" using assms(3) includes_iff by blast
  obtain t where t: "s = 91 # t" using assms(1) startsWith_bracket by blast
  obtain u where u: "s = u @ [93]" using assms(2) endsWith_bracket by blast
  have "xs \<noteq> []" using s t by (auto simp: js_def)
  moreover have "ys \<noteq> []" using s u by (auto simp: js_def)
  ultimately show ?thesis using s by (cases xs; cases ys) (auto simp: js_def)
qed

lemma optional_length:
  assumes "startsWith s (js ''[['')" "endsWith s (js '']]'')" "includes_js s (js ''...'')"
  shows "7 \<le> length s"
proof -
  obtain xs ys where s: "s = xs @ js ''...'' @ ys" using assms(3) includes_iff by blast
  have a: "take (Suc (Suc 0)) s = [91, 91]"
    using assms(1) by (simp add: startsWith_def js_def)
  have b: "2 \<le> length s" "drop (length s - 2) s = [93, 93]"
    using assms(2) by (simp_all add: endsWith_def js_def numeral_2_eq_2)
  have "2 \<le> length xs"
  proof (rule ccontr)
    assume "\<not> 2 \<le> length xs"
    then consider "xs = []" | x where "xs = [x]" by (cases xs; cases "tl xs") auto
    then show False using a s by cases (auto simp: js_def)
  qed
  moreover have "2 \<le> length ys"
  proof (rule ccontr)
    assume "\<not> 2 \<le> length ys"
    then consider "ys = []" | y where "ys = [y]" by (cases ys; cases "tl ys") auto
    then show False using b s by cases (auto simp: js_def)
  qed
  ultimately show ?thesis using s by (simp add: js_def)
qed

lemma slice_between:
  "0 < m \<Longrightarrow> n + m \<le> length s \<Longrightarrow> slice s (int n) (- int m) = between n m s"
  unfolding slice_def between_def Let_def
  by (auto simp: min_def max_def nat_diff_distrib' add.commute)

lemma slice_1_1: "2 \<le> length s \<Longrightarrow> slice s 1 (-1) = between 1 1 s"
  using slice_between [of 1 1 s] by simp

lemma slice_4_1: "5 \<le> length s \<Longrightarrow> slice s 4 (-1) = between 4 1 s"
  using slice_between [of 1 4 s] by simp

lemma slice_5_2: "7 \<le> length s \<Longrightarrow> slice s 5 (-2) = between 5 2 s"
  using slice_between [of 2 5 s] by simp

lemma parseSegment_eq_classify_spec: "parseSegment s = classify_spec s"
  unfolding parseSegment_def classify_spec_def
  by (auto simp: slice_1_1 slice_4_1 slice_5_2 dynamic_length catchAll_length optional_length)

section \<open>The segment classifier\<close>

text \<open>
  Claim C7. \<open>parseSegment\<close> is total and agrees on every string with the classifier of
  the specification, whose rules are tried in the order optional catch-all, catch-all,
  dynamic, and which answers static with the segment verbatim when no bracket rule
  applies. On \<open>foo\<close>, \<open>[id]\<close>, \<open>[...ids]\<close> and \<open>[[...ids]]\<close> it gives static
  \<open>foo\<close>, dynamic \<open>id\<close>, catch-all \<open>ids\<close> and optional catch-all \<open>ids\<close>.
\<close>

theorem parseSegment_classifies:
  "parseSegment s = classify_spec s \<and>
   parseSegment (js ''foo'') = \<lparr>type = Static, value = js ''foo''\<rparr> \<and>
   parseSegment (js ''[id]'') = \<lparr>type = Dynamic, value = js ''id''\<rparr> \<and>
   parseSegment (js ''[...ids]'') = \<lparr>type = CatchAll, value = js ''ids''\<rparr> \<and>
   parseSegment (js ''[[...ids]]'') = \<lparr>type = OptionalCatchAll, value = js ''ids''\<rparr>"
proof -
  have "parseSegment (js ''foo'') = \<lparr>type = Static, value = js ''foo''\<rparr>"
    by (simp add: parseSegment_def js_def startsWith_def)
  moreover have "parseSegment (js ''[id]'') = \<lparr>type = Dynamic, value = js ''id''\<rparr>"
    by (simp add: parseSegment_def js_def startsWith_def endsWith_def slice_def)
  moreover have "parseSegment (js ''[...ids]'') = \<lparr>type = CatchAll, value = js ''ids''\<rparr>"
    by (simp add: parseSegment_def js_def startsWith_def endsWith_def slice_def)
  moreover have
    "parseSegment (js ''[[...ids]]'') = \<lparr>type = OptionalCatchAll, value = js ''ids''\<rparr>"
    by (simp add: parseSegment_def js_def startsWith_def endsWith_def slice_def)
  ultimately show ?thesis using parseSegment_eq_classify_spec by blast
qed

text \<open>
  Claim C9, as stated, fails: the segments \<open>[]\<close>, \<open>[...]\<close> and \<open>[[...]]\<close> are
  classified as dynamic, catch-all and optional catch-all, each with the empty name.
\<close>

theorem parseSegment_empty_name:
  "parseSegment (js ''[]'') = \<lparr>type = Dynamic, value = []\<rparr> \<and>
   parseSegment (js ''[...]'') = \<lparr>type = CatchAll, value = []\<rparr> \<and>
   parseSegment (js ''[[...]]'') = \<lparr>type = OptionalCatchAll, value = []\<rparr>"
  by (simp add: parseSegment_def js_def startsWith_def endsWith_def slice_def)

text \<open>
  Claim C9, amended. The name of a non-static segment is the segment without its
  delimiters: its length is the length of the segment minus 2 (dynamic), 5 (catch-all)
  or 7 (optional catch-all), and the segment is never shorter than its delimiters. So the
  name is non-empty exactly when the segment is longer than its delimiters.
\<close>

theorem parseSegment_name_length:
  assumes "type (parseSegment s) \<noteq> Static"
  shows "delimiters (type (parseSegment s)) \<le> length s \<and>
         length (value (parseSegment s)) = length s - delimiters (type (parseSegment s)) \<and>
         (value (parseSegment s) \<noteq> [] \<longleftrightarrow> delimiters (type (parseSegment s)) < length s)"
proof -
  have len: "delimiters (type (parseSegment s)) \<le> length s \<and>
      length (value (parseSegment s)) = length s - delimiters (type (parseSegment s))"
    using assms unfolding parseSegment_eq_classify_spec classify_spec_def delimiters_def
    by (auto simp: between_def dynamic_length catchAll_length optional_length
             split: if_splits)
  then have "value (parseSegment s) \<noteq> [] \<longleftrightarrow> delimiters (type (parseSegment s)) < length s"
    by (metis length_0_conv zero_less_diff neq0_conv)
  with len show ?thesis by blast
qed

theorem parseSegment_name_length_witness:
  "type (parseSegment (js ''[id]'')) \<noteq> Static \<and>
   length (value (parseSegment (js ''[id]''))) = 2 \<and>
   value (parseSegment (js ''[id]'')) \<noteq> []"
proof -
  have p: "parseSegment (js ''[id]'') = \<lparr>type = Dynamic, value = js ''id''\<rparr>"
    by (simp add: parseSegment_def js_def startsWith_def endsWith_def slice_def)
  then have h: "type (parseSegment (js ''[id]'')) \<noteq> Static" by simp
  show ?thesis
    using h parseSegment_name_length [OF h] unfolding p by (simp add: delimiters_def js_def)
qed

section \<open>The path builder\<close>

text \<open>
  Claim C10. Without \<open>routeParams\<close> the route is returned as it is, followed by the
  query string when \<open>searchParams\<close> is given: the segments are neither classified nor
  filled, so a pattern with dynamic and catch-all segments comes back verbatim and no
  missing parameter is reported.
\<close>

theorem path_without_routeParams:
  "path \<lparr>route = r, searchParams = None, routeParams = None\<rparr> = Inr r \<and>
   path \<lparr>route = r, searchParams = Some sp, routeParams = None\<rparr> =
     map_ok (\<lambda>searchString. r @ searchString) (generateParamStringFromSearchParamObj sp) \<and>
   path \<lparr>route = js ''/[id]/[...rest]'', searchParams = None, routeParams = None\<rparr> =
     Inr (js ''/[id]/[...rest]'') \<and>
   path \<lparr>route = js ''/[id]'', searchParams = Some [(js ''bar'', JBool True)],
         routeParams = None\<rparr> = Inr (js ''/[id]?bar=true'')"
proof -
  have "generateParamStringFromSearchParamObj [(js ''bar'', JBool True)] = Inr (js ''?bar=true'')"
    by code_simp
  then show ?thesis
    by (simp add: path_def bind_ok_def map_ok_def js_def split: sum.splits)
qed

text \<open>
  Claim C2. The documentation of the repository says that a search parameter bound to
  \<open>undefined\<close> is left out of the path, and that the pattern \<open>/\<close> with
  \<open>{foo: undefined, bar: true}\<close> gives \<open>/?bar=true\<close>. The code pushes the bare key
  instead: the same call gives \<open>/?foo&bar=true\<close>.
\<close>

theorem path_undefined_search_param:
  "path \<lparr>route = js ''/'',
         searchParams = Some [(js ''foo'', JUndefined), (js ''bar'', JBool True)],
         routeParams = None\<rparr> = Inr (js ''/?foo&bar=true'') \<and>
   paramStrings ((key, JUndefined) # entries) =
     map_ok (\<lambda>params. key # params) (paramStrings entries)"
proof -
  have "path \<lparr>route = js ''/'',
         searchParams = Some [(js ''foo'', JUndefined), (js ''bar'', JBool True)],
         routeParams = None\<rparr> = Inr (js ''/?foo&bar=true'')"
    by code_simp
  then show ?thesis by (simp add: bind_ok_def)
qed

section \<open>Decoding\<close>

text \<open>
  Claim C3, as stated, fails: the token \<open>hello%20world\<close> percent-decodes to
  \<open>hello world\<close>, which is not JSON, and the value returned is the token itself,
  \<open>hello%20world\<close>, not the percent-decoded text.
\<close>

theorem safeJSONParse_keeps_token:
  "decodeURIComponent (js ''hello%20world'') = Inr (js ''hello world'') \<and>
   JSON_parse (js ''hello world'') = Inl SyntaxError \<and>
   safeJSONParse (Some (js ''hello%20world'')) = Inr (JStr (js ''hello%20world'')) \<and>
   safeJSONParse (Some (js ''hello%20world'')) \<noteq> Inr (JStr (js ''hello world''))"
  by code_simp

text \<open>
  Claim C3, amended. Decoding a token percent-decodes it and parses the decoded text as
  JSON; when the percent-decoding or the parse fails, the value is the token as it was
  given, as a string.
\<close>

theorem safeJSONParse_result:
  "safeJSONParse (Some t) =
     (case decodeURIComponent t of
        Inl e \<Rightarrow> Inr (JStr t)
      | Inr d \<Rightarrow> (case JSON_parse d of Inl e \<Rightarrow> Inr (JStr t) | Inr v \<Rightarrow> Inr v))"
  by (simp add: safeJSONParse_def try_catch_def bind_ok_def split: sum.splits)
lemma safeJSONParse_total: "\<exists>v. safeJSONParse x = Inr v"
  by (cases x) (auto simp: safeJSONParse_def try_catch_def split: sum.splits)

lemma traverse_total:
  assumes "\<And>x. \<exists>v. f x = Inr v"
  shows "\<exists>vs. traverse f xs = Inr vs"
proof (induction xs)
  case Nil
  show ?case by simp
next
  case (Cons x xs)
  obtain v where "f x = Inr v" using assms by blast
  moreover obtain vs where "traverse f xs = Inr vs" using Cons.IH by blast
  ultimately show ?case by (simp add: bind_ok_def map_ok_def)
qed

lemma parseOrMapParse_total: "\<exists>v. parseOrMapParse q = Inr v"
proof (cases q)
  case None
  then show ?thesis by (simp add: parseOrMapParse_def safeJSONParse_total)
next
  case (Some a)
  show ?thesis
  proof (cases a)
    case (QString s)
    with Some show ?thesis by (simp add: parseOrMapParse_def safeJSONParse_total)
  next
    case (QArray xs)
    obtain vs where "traverse (\<lambda>x. safeJSONParse (Some x)) xs = Inr vs"
      using traverse_total [of "\<lambda>x. safeJSONParse (Some x)" xs] safeJSONParse_total by blast
    with Some QArray show ?thesis by (simp add: parseOrMapParse_def map_ok_def)
  qed
qed

text \<open>
  Claim C8. Decoding never raises: \<open>undefined\<close> decodes to \<open>undefined\<close>, every
  token decodes to a value, also through \<open>parseOrMapParse\<close>, and a token whose
  percent-encoding or JSON is malformed decodes to a string.
\<close>

theorem safeJSONParse_never_raises:
  "safeJSONParse None = Inr JUndefined \<and>
   (\<exists>v. safeJSONParse (Some t) = Inr v) \<and>
   (\<exists>v. parseOrMapParse q = Inr v) \<and>
   ((\<exists>e. bind_ok (decodeURIComponent t) JSON_parse = Inl e) \<longrightarrow>
      safeJSONParse (Some t) = Inr (JStr t))"
proof -
  have "safeJSONParse None = Inr JUndefined" by (simp add: safeJSONParse_def)
  moreover have "(\<exists>e. bind_ok (decodeURIComponent t) JSON_parse = Inl e) \<longrightarrow>
      safeJSONParse (Some t) = Inr (JStr t)"
    by (auto simp: safeJSONParse_def try_catch_def)
  ultimately show ?thesis using safeJSONParse_total parseOrMapParse_total by blast
qed

theorem safeJSONParse_never_raises_witness:
  "bind_ok (decodeURIComponent (js ''%E0%A4%A'')) JSON_parse = Inl URIError \<and>
   bind_ok (decodeURIComponent (js ''%7Bbad'')) JSON_parse = Inl SyntaxError \<and>
   safeJSONParse (Some (js ''%E0%A4%A'')) = Inr (JStr (js ''%E0%A4%A'')) \<and>
   safeJSONParse (Some (js ''%7Bbad'')) = Inr (JStr (js ''%7Bbad''))"
proof -
  have a: "bind_ok (decodeURIComponent (js ''%E0%A4%A'')) JSON_parse = Inl URIError"
    by code_simp
  have b: "bind_ok (decodeURIComponent (js ''%7Bbad'')) JSON_parse = Inl SyntaxError"
    by code_simp
  show ?thesis
    using a b safeJSONParse_never_raises [of "js ''%E0%A4%A''"]
      safeJSONParse_never_raises [of "js ''%7Bbad''"]
    by simp
qed

section \<open>Filling a route\<close>







section \<open>The route decoder\<close>
















section \<open>Encoding\<close>

subsection \<open>Results and errors\<close>


lemma map_ok_simps [simp]:
  "map_ok f (Inl e) = Inl e" "map_ok f (Inr x) = Inr (f x)"
  by (simp_all add: map_ok_def)

lemma bind_ok_simps [simp]:
  "bind_ok (Inl e) g = Inl e" "bind_ok (Inr x) g = g x"
  by (simp_all add: bind_ok_def)

lemma map_ok_eq_Inr: "map_ok f r = Inr y \<longleftrightarrow> (\<exists>x. r = Inr x \<and> y = f x)"
  by (cases r) auto

lemma map_ok_eq_Inl: "map_ok f r = Inl e \<longleftrightarrow> r = Inl e"
  by (cases r) auto

lemma isLeadingSurrogate_unat:
  "isLeadingSurrogate c \<longleftrightarrow> 0xD800 \<le> unat c \<and> unat c \<le> 0xDBFF"
  by (simp add: isLeadingSurrogate_def word_le_nat_alt)

lemma isTrailingSurrogate_unat:
  "isTrailingSurrogate c \<longleftrightarrow> 0xDC00 \<le> unat c \<and> unat c \<le> 0xDFFF"
  by (simp add: isTrailingSurrogate_def word_le_nat_alt)

lemma uriUnreserved_unat:
  "uriUnreserved c \<longleftrightarrow>
     (0x41 \<le> unat c \<and> unat c \<le> 0x5A) \<or> (0x61 \<le> unat c \<and> unat c \<le> 0x7A) \<or>
     (0x30 \<le> unat c \<and> unat c \<le> 0x39) \<or>
     unat c \<in> {0x2D, 0x5F, 0x2E, 0x21, 0x7E, 0x2A, 0x28, 0x29, 0x27}"
  by (auto simp: uriUnreserved_def word_le_nat_alt js_def word_unat_eq_iff)

lemma not_both_surrogates: "isLeadingSurrogate c \<Longrightarrow> \<not> isTrailingSurrogate c"
  by (simp add: isLeadingSurrogate_unat isTrailingSurrogate_unat)

lemma unreserved_not_surrogate:
  "uriUnreserved c \<Longrightarrow> \<not> isLeadingSurrogate c \<and> \<not> isTrailingSurrogate c"
  by (auto simp: uriUnreserved_unat isLeadingSurrogate_unat isTrailingSurrogate_unat)

lemma encodeURIComponent_unreserved:
  "uriUnreserved c \<Longrightarrow>
     encodeURIComponent (c # cs) = map_ok (\<lambda>r. c # r) (encodeURIComponent cs)"
  by simp

lemma encodeURIComponent_pair:
  "isLeadingSurrogate c \<Longrightarrow> isTrailingSurrogate d \<Longrightarrow>
     encodeURIComponent (c # d # ds) =
       map_ok (\<lambda>r. concat (map percent (utf8_encode (surrogatePairToCodePoint c d))) @ r)
         (encodeURIComponent ds)"
  using unreserved_not_surrogate [of c] by auto

lemma encodeURIComponent_lone_lead:
  "isLeadingSurrogate c \<Longrightarrow> encodeURIComponent [c] = Inl URIError"
  "isLeadingSurrogate c \<Longrightarrow> \<not> isTrailingSurrogate d \<Longrightarrow>
     encodeURIComponent (c # d # ds) = Inl URIError"
  using unreserved_not_surrogate [of c] by auto

lemma encodeURIComponent_lone_trail:
  "isTrailingSurrogate c \<Longrightarrow> encodeURIComponent (c # cs) = Inl URIError"
  using unreserved_not_surrogate [of c] not_both_surrogates [of c] by auto

lemma encodeURIComponent_escape:
  "\<not> uriUnreserved c \<Longrightarrow> \<not> isLeadingSurrogate c \<Longrightarrow> \<not> isTrailingSurrogate c \<Longrightarrow>
     encodeURIComponent (c # cs) =
       map_ok (\<lambda>r. concat (map percent (utf8_encode (unat c))) @ r) (encodeURIComponent cs)"
  by simp

lemmas encodeURIComponent_cases =
  encodeURIComponent_unreserved encodeURIComponent_pair encodeURIComponent_lone_lead
  encodeURIComponent_lone_trail encodeURIComponent_escape

declare encodeURIComponent.simps(2) [simp del]

lemma encodeURIComponent_step:
  assumes "\<not> isLeadingSurrogate c" "\<not> isTrailingSurrogate c"
  shows "\<exists>f. encodeURIComponent (c # cs) = map_ok f (encodeURIComponent cs)"
  using assms encodeURIComponent_unreserved encodeURIComponent_escape by (cases "uriUnreserved c") blast+

lemma encodeURIComponent_wellFormed:
  "(\<exists>t. encodeURIComponent s = Inr t) \<longleftrightarrow> wellFormed s"
proof (induction s rule: wellFormed.induct)
  case 1
  show ?case by simp
next
  case (2 c)
  consider "isLeadingSurrogate c" | "isTrailingSurrogate c"
    | "\<not> isLeadingSurrogate c" "\<not> isTrailingSurrogate c" by blast
  then show ?case
  proof cases
    case 1
    then show ?thesis by (simp add: encodeURIComponent_lone_lead)
  next
    case 2
    then show ?thesis by (simp add: encodeURIComponent_lone_trail)
  next
    case 3
    then obtain f where "encodeURIComponent [c] = map_ok f (encodeURIComponent [])"
      using encodeURIComponent_step by blast
    with 3 show ?thesis by simp
  qed
next
  case (3 c d ds)
  consider "isLeadingSurrogate c" "isTrailingSurrogate d"
    | "isLeadingSurrogate c" "\<not> isTrailingSurrogate d"
    | "isTrailingSurrogate c"
    | "\<not> isLeadingSurrogate c" "\<not> isTrailingSurrogate c" by blast
  then show ?case
  proof cases
    case 1
    with 3 show ?thesis by (auto simp: encodeURIComponent_pair map_ok_eq_Inr)
  next
    case 2
    then show ?thesis by (simp add: encodeURIComponent_lone_lead)
  next
    case 3
    then show ?thesis
      using not_both_surrogates [of c] by (auto simp: encodeURIComponent_lone_trail)
  next
    case 4
    then obtain f where "encodeURIComponent (c # d # ds) = map_ok f (encodeURIComponent (d # ds))"
      using encodeURIComponent_step by blast
    with 4 3 show ?thesis by (auto simp: map_ok_eq_Inr)
  qed
qed

lemma encodeURIComponent_error: "encodeURIComponent s = Inl e \<Longrightarrow> e = URIError"
proof (induction s rule: wellFormed.induct)
  case 1
  then show ?case by simp
next
  case (2 c)
  then show ?case
    by (cases "isLeadingSurrogate c"; cases "isTrailingSurrogate c"; cases "uriUnreserved c")
      (auto simp: encodeURIComponent_cases)
next
  case (3 c d ds)
  then show ?case
    by (cases "isLeadingSurrogate c"; cases "isTrailingSurrogate c"; cases "uriUnreserved c";
        cases "isTrailingSurrogate d")
      (auto simp: encodeURIComponent_cases map_ok_eq_Inl dest: unreserved_not_surrogate not_both_surrogates)
qed


subsection \<open>Well-formed strings\<close>


lemma wellFormed_Cons_plain:
  "\<not> isLeadingSurrogate c \<Longrightarrow> \<not> isTrailingSurrogate c \<Longrightarrow> wellFormed (c # s) = wellFormed s"
  by (cases s) auto

lemma wellFormed_append: "wellFormed a \<Longrightarrow> wellFormed b \<Longrightarrow> wellFormed (a @ b)"
proof (induction a rule: wellFormed.induct)
  case 1
  then show ?case by simp
next
  case (2 c)
  then show ?case by (simp add: wellFormed_Cons_plain)
next
  case (3 c d ds)
  then show ?case by (auto split: if_splits)
qed

lemma wellFormed_plain:
  "(\<forall>c \<in> set s. \<not> isLeadingSurrogate c \<and> \<not> isTrailingSurrogate c) \<Longrightarrow> wellFormed s"
  by (induction s) (auto simp: wellFormed_Cons_plain)

lemma wellFormed_ascii: "(\<forall>c \<in> set s. unat c < 0x80) \<Longrightarrow> wellFormed s"
  by (rule wellFormed_plain) (force simp: isLeadingSurrogate_unat isTrailingSurrogate_unat)

lemma unat_of_char_less: "unat (of_char a :: 16 word) < 256"
proof -
  have "(of_char a :: 16 word) = of_nat (of_char a)" by (simp add: of_nat_of_char)
  then have "unat (of_char a :: 16 word) = (of_char a :: nat) mod 2 ^ 16"
    by (simp add: unat_of_nat)
  also have "\<dots> = (of_char a :: nat)"
    by (rule mod_less) (rule less_trans [OF nat_of_char_less_256], simp)
  finally show ?thesis by simp
qed

lemma wellFormed_js: "wellFormed (js s)"
proof (rule wellFormed_plain, rule ballI)
  fix c assume "c \<in> set (js s)"
  then obtain a where "c = of_char a" by (auto simp: js_def)
  then have "unat c < 256" using unat_of_char_less by simp
  then show "\<not> isLeadingSurrogate c \<and> \<not> isTrailingSurrogate c"
    by (simp add: isLeadingSurrogate_unat isTrailingSurrogate_unat)
qed

lemma unat_of_nat_16: "n < 65536 \<Longrightarrow> unat (of_nat n :: 16 word) = n"
  by (simp only: unat_of_nat) simp

lemma unat_digit_unit: "d < 10 \<Longrightarrow> unat (digit_unit d) = 48 + d"
  unfolding digit_unit_def by (rule unat_of_nat_16) simp

lemma digits_ascii: "\<forall>c \<in> set (digits n). 48 \<le> unat c \<and> unat c \<le> 57"
proof (induction n rule: digits.induct)
  case (1 n)
  show ?case
  proof (cases "n < 10")
    case True
    then show ?thesis by (subst digits.simps) (simp add: unat_digit_unit)
  next
    case False
    have "n mod 10 < 10" by simp
    then have "unat (digit_unit (n mod 10)) = 48 + n mod 10" by (rule unat_digit_unit)
    with False 1 show ?thesis by (subst digits.simps) auto
  qed
qed

lemma wellFormed_digits: "wellFormed (digits n)"
  by (rule wellFormed_ascii) (use digits_ascii in force)

lemma wellFormed_take_plain:
  "(\<forall>c \<in> set s. \<not> isLeadingSurrogate c \<and> \<not> isTrailingSurrogate c) \<Longrightarrow>
     wellFormed (take n s) \<and> wellFormed (drop n s)"
  by (meson in_set_takeD in_set_dropD wellFormed_plain)

lemma digits_plain: "\<forall>c \<in> set (digits n). \<not> isLeadingSurrogate c \<and> \<not> isTrailingSurrogate c"
  using digits_ascii by (force simp: isLeadingSurrogate_unat isTrailingSurrogate_unat)

lemma wellFormed_replicate: "wellFormed (replicate n (48 :: 16 word))"
  by (rule wellFormed_plain) (simp add: isLeadingSurrogate_def isTrailingSurrogate_def)

lemma wellFormed_numberToString: "wellFormed (numberToString x)"
proof (cases x)
  case (Finite m e)
  let ?ds = "digits (nat \<bar>m\<bar>)"
  note wf = wellFormed_append wellFormed_js wellFormed_digits wellFormed_replicate
    wellFormed_take_plain [OF digits_plain, THEN conjunct1]
    wellFormed_take_plain [OF digits_plain, THEN conjunct2]
  have sign: "wellFormed (if m < 0 then js ''-'' else [])" by (simp add: wellFormed_js)
  have ex: "\<And>x. wellFormed ((if x < (0::int) then js ''-'' else js ''+'') @ digits (nat \<bar>x\<bar>))"
    by (simp add: wf)
  show ?thesis
    unfolding numberToString_def Finite jsnum.case Let_def
    by (simp add: wf sign ex del: append_assoc)
qed (simp_all add: numberToString_def wellFormed_js)

lemma hexLower_ascii:
  assumes "d < 16"
  shows "unat (hexLower d) < 0x80"
proof (cases "d < 10")
  case True
  have "unat (of_nat (48 + d) :: 16 word) = 48 + d"
    using True by (intro unat_of_nat_16) simp
  with True show ?thesis by (simp only: hexLower_def if_True)
next
  case False
  have "unat (of_nat (87 + d) :: 16 word) = 87 + d"
    using assms by (intro unat_of_nat_16) simp
  with False assms show ?thesis by (simp only: hexLower_def if_False)
qed

lemma wellFormed_unicodeEscape: "wellFormed (unicodeEscape c)"
proof -
  have "wellFormed [hexLower (unat c div 0x1000), hexLower (unat c div 0x100 mod 0x10),
          hexLower (unat c div 0x10 mod 0x10), hexLower (unat c mod 0x10)]"
  proof (rule wellFormed_ascii)
    have "unat c < 65536" using unsigned_less [of c] by simp
    then have "unat c div 0x1000 < 16" by simp
    then show "\<forall>x \<in> set [hexLower (unat c div 0x1000), hexLower (unat c div 0x100 mod 0x10),
          hexLower (unat c div 0x10 mod 0x10), hexLower (unat c mod 0x10)]. unat x < 0x80"
      by (simp add: hexLower_ascii)
  qed
  then show ?thesis
    unfolding unicodeEscape_def Let_def by (intro wellFormed_append wellFormed_js)
qed

lemma wellFormed_quoteUnit:
  "\<not> isLeadingSurrogate c \<Longrightarrow> \<not> isTrailingSurrogate c \<Longrightarrow> wellFormed (quoteUnit c)"
  by (simp add: quoteUnit_def wellFormed_js wellFormed_unicodeEscape)

lemma wellFormed_quoteUnits: "wellFormed (quoteUnits s)"
proof (induction s rule: quoteUnits.induct)
  case 1
  show ?case by simp
next
  case (2 c)
  show ?case by (simp add: wellFormed_unicodeEscape wellFormed_quoteUnit)
next
  case (3 c d ds)
  consider "isLeadingSurrogate c" "isTrailingSurrogate d"
    | "isLeadingSurrogate c" "\<not> isTrailingSurrogate d"
    | "\<not> isLeadingSurrogate c" "isTrailingSurrogate c"
    | "\<not> isLeadingSurrogate c" "\<not> isTrailingSurrogate c" by blast
  then show ?case
  proof cases
    case 1
    with 3(1) show ?thesis by simp
  next
    case 2
    with 3(2) show ?thesis
      by (simp del: quoteUnits.simps add: quoteUnits.simps(3) wellFormed_append
          wellFormed_unicodeEscape)
  next
    case 3
    with "3.IH"(3) show ?thesis
      by (simp del: quoteUnits.simps add: quoteUnits.simps(3) wellFormed_append
          wellFormed_unicodeEscape)
  next
    case 4
    with "3.IH"(4) show ?thesis
      by (simp del: quoteUnits.simps add: quoteUnits.simps(3) wellFormed_append
          wellFormed_quoteUnit)
  qed
qed

lemma wellFormed_quoteJSONString: "wellFormed (quoteJSONString s)"
  unfolding quoteJSONString_def
  by (intro wellFormed_append wellFormed_quoteUnits wellFormed_plain)
    (simp_all add: isLeadingSurrogate_def isTrailingSurrogate_def)

lemma wellFormed_join:
  "(\<forall>t \<in> set ts. wellFormed t) \<Longrightarrow> wellFormed sep \<Longrightarrow> wellFormed (join ts sep)"
  by (induction ts sep rule: join.induct) (auto intro!: wellFormed_append)

lemma serialize_properties:
  "(\<forall>e. serializeJSONProperty v = Inl e \<longrightarrow> e = TypeError) \<and>
   (hasBigInt v \<longleftrightarrow> serializeJSONProperty v = Inl TypeError) \<and>
   (\<forall>t. serializeJSONProperty v = Inr (Some t) \<longrightarrow> wellFormed t)"
  "(\<forall>e. serializeJSONArray xs = Inl e \<longrightarrow> e = TypeError) \<and>
   (hasBigIntElements xs \<longleftrightarrow> serializeJSONArray xs = Inl TypeError) \<and>
   (\<forall>ts. serializeJSONArray xs = Inr ts \<longrightarrow> (\<forall>t \<in> set ts. wellFormed t))"
  "(\<forall>e. serializeJSONObject ps = Inl e \<longrightarrow> e = TypeError) \<and>
   (hasBigIntProperties ps \<longleftrightarrow> serializeJSONObject ps = Inl TypeError) \<and>
   (\<forall>ts. serializeJSONObject ps = Inr ts \<longrightarrow> (\<forall>t \<in> set ts. wellFormed t))"
proof (induction v and xs and ps
    rule: serializeJSONProperty_serializeJSONArray_serializeJSONObject.induct)
  case 1
  show ?case by (simp add: wellFormed_js)
next
  case (2 b)
  show ?case by (simp add: wellFormed_js)
next
  case (3 s)
  show ?case by (simp add: wellFormed_quoteJSONString)
next
  case (4 x)
  show ?case by (simp add: wellFormed_js wellFormed_numberToString)
next
  case (5 i)
  show ?case by simp
next
  case (6 xs)
  then show ?case
    by (auto simp: map_ok_eq_Inl map_ok_eq_Inr wellFormed_js wellFormed_join
        intro!: wellFormed_append)
next
  case (7 ps)
  then show ?case
    by (auto simp: map_ok_eq_Inl map_ok_eq_Inr wellFormed_js wellFormed_join
        intro!: wellFormed_append)
next
  case 8 show ?case by simp
next
  case 9 show ?case by simp
next
  case 10 show ?case by simp
next
  case 11 show ?case by simp
next
  case (12 x xs)
  show ?case
  proof (cases "serializeJSONProperty x")
    case (Inl e)
    with 12(1) show ?thesis by auto
  next
    case (Inr str)
    with 12(1) 12(2) show ?thesis
      by (cases "serializeJSONArray xs"; cases str) (auto simp: wellFormed_js)
  qed
next
  case 13 show ?case by simp
next
  case (14 k v ps)
  show ?case
  proof (cases "serializeJSONProperty v")
    case (Inl e)
    with 14(1) show ?thesis by auto
  next
    case (Inr str)
    with 14(1) 14(2) show ?thesis
      by (cases "serializeJSONObject ps"; cases str)
        (auto simp: wellFormed_js wellFormed_quoteJSONString intro!: wellFormed_append)
  qed
qed


subsection \<open>The failures of the encoder\<close>


lemma encodeURIComponent_Inl_iff:
  "encodeURIComponent s = Inl e \<longleftrightarrow> e = URIError \<and> \<not> wellFormed s"
  using encodeURIComponent_wellFormed [of s] encodeURIComponent_error [of s]
  by (cases "encodeURIComponent s") auto

lemma encodeValue_string:
  "encodeValue (JStr s) = (if s = [] then Inl InvalidValue else encodeURIComponent s)"
  by (simp add: encodeValue_def)

lemma encodeValue_number: "encodeValue (JNum x) = encodeURIComponent (numberToString x)"
  by (simp add: encodeValue_def)

lemma encodeValue_boolean:
  "encodeValue (JBool b) = encodeURIComponent (if b then js ''true'' else js ''false'')"
  by (simp add: encodeValue_def)

lemma encodeValue_object:
  "typeof v = TObject \<Longrightarrow>
     encodeValue v = bind_ok (JSON_stringify v)
       (\<lambda>t. encodeURIComponent (case t of None \<Rightarrow> js ''undefined'' | Some str \<Rightarrow> str))"
  by (cases v) (simp_all add: encodeValue_def)

lemma stringify_object:
  assumes "typeof v = TObject"
  shows "(hasBigInt v \<and> JSON_stringify v = Inl TypeError) \<or>
         (\<not> hasBigInt v \<and> (\<exists>t. JSON_stringify v = Inr (Some t) \<and> wellFormed t))"
proof (cases "JSON_stringify v")
  case (Inl e)
  then show ?thesis
    using serialize_properties(1) [of v] by (auto simp: JSON_stringify_def)
next
  case (Inr r)
  have "r \<noteq> None"
    using assms Inr by (cases v) (auto simp: JSON_stringify_def map_ok_eq_Inr)
  then obtain t where "r = Some t" by blast
  with Inr show ?thesis
    using serialize_properties(1) [of v] by (auto simp: JSON_stringify_def)
qed

lemma encodeValue_object_result:
  assumes "typeof v = TObject"
  shows "(hasBigInt v \<and> encodeValue v = Inl TypeError) \<or>
         (\<not> hasBigInt v \<and> (\<exists>t. encodeValue v = Inr t))"
  using stringify_object [OF assms] encodeURIComponent_wellFormed
  by (auto simp: encodeValue_object [OF assms])


text \<open>
  Claim C6, as stated, fails: a non-empty string with an unpaired surrogate, and an
  array holding a BigInt, are a string and an array, and the encoder fails on both, with
  the error of \<^verbatim>\<open>encodeURIComponent\<close> and of \<^verbatim>\<open>JSON.stringify\<close>.
\<close>


theorem encodeValue_counterexample:
  "encodeValue (JStr [0xD800]) = Inl URIError \<and> encodeValue (JArr [JBigInt 1]) = Inl TypeError"
  by code_simp


text \<open>
  Claim C6, amended. The encoder fails with \<open>InvalidValue\<close> exactly on the empty
  string and on the values that are no string, number, boolean, null, array or object.
  On the other values it fails in two cases only: with \<open>URIError\<close> on a string with
  an unpaired surrogate, and with \<open>TypeError\<close> on an array or object that holds a
  BigInt. In every other case it returns a token.
\<close>


theorem encodeValue_failures:
  "(encodeValue v = Inl InvalidValue \<longleftrightarrow>
      v = JStr [] \<or> typeof v = TUndefined \<or> typeof v = TBigInt \<or> typeof v = TSymbol \<or>
      typeof v = TFunction) \<and>
   (encodeValue v = Inl URIError \<longleftrightarrow> typeof v = TString \<and> \<not> wellFormed (toString v)) \<and>
   (encodeValue v = Inl TypeError \<longleftrightarrow> typeof v = TObject \<and> hasBigInt v) \<and>
   encodeValue v \<noteq> Inl SyntaxError \<and> encodeValue v \<noteq> Inl (MissingRouteParam n) \<and>
   ((\<exists>t. encodeValue v = Inr t) \<longleftrightarrow>
      (typeof v = TString \<and> v \<noteq> JStr [] \<and> wellFormed (toString v)) \<or>
      typeof v = TNumber \<or> typeof v = TBoolean \<or> (typeof v = TObject \<and> \<not> hasBigInt v))"
proof (cases "typeof v = TObject")
  case True
  then show ?thesis using encodeValue_object_result [OF True] by auto
next
  case False
  show ?thesis
  proof (cases v)
    case (JStr s)
    then show ?thesis
      by (auto simp: encodeValue_string encodeURIComponent_Inl_iff encodeURIComponent_wellFormed)
  next
    case (JNum x)
    then show ?thesis
      by (simp add: encodeValue_number encodeURIComponent_Inl_iff wellFormed_numberToString
          encodeURIComponent_wellFormed)
  next
    case (JBool b)
    then show ?thesis
      by (simp add: encodeValue_boolean encodeURIComponent_Inl_iff wellFormed_js
          encodeURIComponent_wellFormed)
  qed (use False in \<open>simp_all add: encodeValue_def\<close>)
qed

section \<open>Percent-decoding after percent-encoding\<close>















declare decodeURIComponent.simps(2) [simp del]
















section \<open>The bound of the parser\<close>

text \<open>
  Every parsing function returns a rest shorter than its input, so the bound that
  \<open>JSON_parse\<close> gives is never used up: a larger bound gives the same result.
\<close>

lemma length_skipWhiteSpace: "length (skipWhiteSpace s) \<le> length s"
  by (simp add: skipWhiteSpace_def length_dropWhile_le)

lemma skipWhiteSpace_Cons_length: "skipWhiteSpace s = c # cs \<Longrightarrow> length cs < length s"
  using length_skipWhiteSpace [of s] by simp

lemma parseStringChars_length:
  "parseStringChars s = Some (str, r) \<Longrightarrow> length r < length s"
proof (induction s arbitrary: str rule: parseStringChars.induct)
  case 1
  then show ?case by simp
next
  case (2 c cs)
  show ?case
  proof (cases "c = 0x22")
    case True
    with 2(4) show ?thesis by (simp add: parseStringChars.simps(2))
  next
    case q: False
    show ?thesis
    proof (cases "c = 0x5C")
      case True
      then obtain e es where es: "cs = e # es"
        using 2(4) q by (cases cs) (auto simp: parseStringChars.simps(2))
      show ?thesis
      proof (cases "e = 0x75")
        case u: True
        then obtain w str' where "parseHex4 es = Some w" "parseStringChars (drop 4 es) = Some (str', r)"
          using 2(4) q True es
          by (auto simp: parseStringChars.simps(2) consUnit_def split: option.splits)
        then have "length r < length (drop 4 es)" using 2(1) q True es u by blast
        then show ?thesis using es by simp
      next
        case u: False
        then obtain w str' where "simpleEscape e = Some w" "parseStringChars es = Some (str', r)"
          using 2(4) q True es
          by (auto simp: parseStringChars.simps(2) consUnit_def split: option.splits)
        then have "length r < length es" using 2(2) q True es u by blast
        then show ?thesis using es by simp
      qed
    next
      case False
      then obtain str' where "\<not> c < 0x20" "parseStringChars cs = Some (str', r)"
        using 2(4) q
        by (auto simp: parseStringChars.simps(2) consUnit_def split: if_splits)
      then have "length r < length cs" using 2(3) q False by blast
      then show ?thesis by simp
    qed
  qed
qed

lemma parseFraction_length: "parseFraction s = Some (fs, r) \<Longrightarrow> length r \<le> length s"
  by (cases s)
    (auto simp: parseFraction_def length_dropWhile_le le_SucI split: if_splits)

lemma parseExponent_length: "parseExponent s = Some (x, r) \<Longrightarrow> length r \<le> length s"
proof (cases s)
  case Nil
  then show "parseExponent s = Some (x, r) \<Longrightarrow> length r \<le> length s"
    by (simp add: parseExponent_def)
next
  case (Cons c cs)
  assume a: "parseExponent s = Some (x, r)"
  show "length r \<le> length s"
  proof (cases "c = 0x65 \<or> c = 0x45")
    case False
    with a Cons show ?thesis by (auto simp: parseExponent_def)
  next
    case True
    then obtain ds where "r = dropWhile isDigit ds" "ds = cs \<or> ds = drop 1 cs"
      using a Cons by (auto simp: parseExponent_def Let_def split: if_splits)
    then have "length r \<le> length cs"
      using length_dropWhile_le [of isDigit ds] by auto
    then show ?thesis using Cons by simp
  qed
qed

lemma parseNumber_length:
  assumes "parseNumber s = Some (x, r)"
  shows "length r < length s"
proof -
  define s1 where "s1 = (if (case s of [] \<Rightarrow> False | c # _ \<Rightarrow> c = 0x2D) then drop 1 s else s)"
  have l1: "length s1 \<le> length s" by (simp add: s1_def)
  obtain c cs where s1: "s1 = c # cs"
    using assms by (cases s1) (auto simp: parseNumber_def Let_def s1_def [symmetric])
  define r0 where "r0 = (if c = 0x30 then cs else dropWhile isDigit cs)"
  note unfold = parseNumber_def Let_def s1_def [symmetric] s1 list.case r0_def [symmetric]
  have d: "isDigit c" using assms by (simp add: unfold split: if_splits)
  obtain fs r1 where pf: "parseFraction r0 = Some (fs, r1)"
    using assms d by (cases "parseFraction r0") (auto simp: unfold)
  obtain ex r2 where pe: "parseExponent r1 = Some (ex, r2)"
    using assms d pf by (cases "parseExponent r1") (auto simp: unfold)
  have r: "r2 = r" using assms d pf pe by (simp add: unfold)
  have "length r0 \<le> length cs"
    using length_dropWhile_le [of isDigit cs] by (simp add: r0_def)
  then show ?thesis
    using parseFraction_length [OF pf] parseExponent_length [OF pe] l1 s1 r by simp
qed

lemma skipWhiteSpace_Cons_le: "skipWhiteSpace s = c # cs \<Longrightarrow> Suc (length cs) \<le> length s"
  using length_skipWhiteSpace [of s] by simp

lemma parse_length:
  "\<forall>s v r. parseValue f s = Some (v, r) \<longrightarrow> length r < length s"
  "\<forall>s vs r. parseElements f s = Some (vs, r) \<longrightarrow> length r < length s"
  "\<forall>s ps r. parseMembers f s = Some (ps, r) \<longrightarrow> length r < length s"
proof (induction f)
  case 0
  { case 1 show ?case by simp }
  { case 2 show ?case by simp }
  { case 3 show ?case by simp }
next
  case (Suc f)
  note ihv = Suc(1) [rule_format] and ihe = Suc(2) [rule_format] and ihm = Suc(3) [rule_format]
  {
    case 1
    show ?case
    proof (intro allI impI)
      fix s v r
      assume a: "parseValue (Suc f) s = Some (v, r)"
      then obtain c cs where s: "s = c # cs" by (cases s) auto
      consider (arr) "c = 0x5B" | (obj) "c \<noteq> 0x5B" "c = 0x7B"
        | (str) "c \<noteq> 0x5B" "c \<noteq> 0x7B" "c = 0x22"
        | (other) "c \<noteq> 0x5B" "c \<noteq> 0x7B" "c \<noteq> 0x22" by blast
      then show "length r < length s"
      proof cases
        case arr
        then obtain d ds where d: "skipWhiteSpace cs = d # ds"
          using a s by (cases "skipWhiteSpace cs") auto
        show ?thesis
        proof (cases "d = 0x5D")
          case True
          then have "r = ds" using a s arr d by simp
          then show ?thesis using skipWhiteSpace_Cons_le [OF d] s by simp
        next
          case False
          then obtain xs where "parseElements f (d # ds) = Some (xs, r)"
            using a s arr d by auto
          then have "length r < length (d # ds)" by (rule ihe)
          then show ?thesis using skipWhiteSpace_Cons_le [OF d] s by simp
        qed
      next
        case obj
        then obtain d ds where d: "skipWhiteSpace cs = d # ds"
          using a s by (cases "skipWhiteSpace cs") auto
        show ?thesis
        proof (cases "d = 0x7D")
          case True
          then have "r = ds" using a s obj d by simp
          then show ?thesis using skipWhiteSpace_Cons_le [OF d] s by simp
        next
          case False
          then obtain ps where "parseMembers f (d # ds) = Some (ps, r)"
            using a s obj d by auto
          then have "length r < length (d # ds)" by (rule ihm)
          then show ?thesis using skipWhiteSpace_Cons_le [OF d] s by simp
        qed
      next
        case str
        then obtain t where "parseStringChars cs = Some (t, r)" using a s by auto
        then show ?thesis using parseStringChars_length s by fastforce
      next
        case other
        then have "r = drop 4 s \<or> r = drop 5 s \<or> (\<exists>x. parseNumber s = Some (x, r))"
          using a s by (auto split: if_splits)
        then show ?thesis using parseNumber_length s by fastforce
      qed
    qed
  }
  {
    case 2
    show ?case
    proof (intro allI impI)
      fix s vs r
      assume a: "parseElements (Suc f) s = Some (vs, r)"
      then obtain v r1 where v: "parseValue f s = Some (v, r1)"
        by (cases "parseValue f s") auto
      then obtain c cs where c: "skipWhiteSpace r1 = c # cs"
        using a by (cases "skipWhiteSpace r1") auto
      have l: "length cs < length s"
        using ihv [OF v] skipWhiteSpace_Cons_le [OF c] by simp
      show "length r < length s"
      proof (cases "c = 0x2C")
        case True
        then obtain ws where "parseElements f (skipWhiteSpace cs) = Some (ws, r)"
          using a v c by auto
        then have "length r < length (skipWhiteSpace cs)" by (rule ihe)
        then show ?thesis using l length_skipWhiteSpace [of cs] by simp
      next
        case False
        then have "r = cs" using a v c by (auto split: if_splits)
        then show ?thesis using l by simp
      qed
    qed
  }
  {
    case 3
    show ?case
    proof (intro allI impI)
      fix s ps r
      assume a: "parseMembers (Suc f) s = Some (ps, r)"
      then obtain c cs where s: "s = c # cs" by (cases s) auto
      have q: "c = 0x22" using a s by (auto split: if_splits)
      obtain k r0 where k: "parseStringChars cs = Some (k, r0)"
        using a s q by (cases "parseStringChars cs") auto
      obtain d ds where d: "skipWhiteSpace r0 = d # ds"
        using a s q k by (cases "skipWhiteSpace r0") auto
      have col: "d = 0x3A" using a s q k d by (auto split: if_splits)
      obtain v r1 where v: "parseValue f (skipWhiteSpace ds) = Some (v, r1)"
        using a s q k d col by (cases "parseValue f (skipWhiteSpace ds)") auto
      obtain e es where e: "skipWhiteSpace r1 = e # es"
        using a s q k d col v by (cases "skipWhiteSpace r1") auto
      have l: "length es < length s"
        using parseStringChars_length [OF k] skipWhiteSpace_Cons_le [OF d]
          length_skipWhiteSpace [of ds] ihv [OF v] skipWhiteSpace_Cons_le [OF e] s
        by simp
      show "length r < length s"
      proof (cases "e = 0x2C")
        case True
        then obtain qs where "parseMembers f (skipWhiteSpace es) = Some (qs, r)"
          using a s q k d col v e by auto
        then have "length r < length (skipWhiteSpace es)" by (rule ihm)
        then show ?thesis using l length_skipWhiteSpace [of es] by simp
      next
        case False
        then have "r = es" using a s q k d col v e by (auto split: if_splits)
        then show ?thesis using l by simp
      qed
    qed
  }
qed

lemma parse_fuel:
  "\<forall>s. 2 * length s \<le> f \<longrightarrow> parseValue (Suc f) s = parseValue f s"
  "\<forall>s. 2 * length s + 1 \<le> f \<longrightarrow> parseElements (Suc f) s = parseElements f s"
  "\<forall>s. 2 * length s + 1 \<le> f \<longrightarrow> parseMembers (Suc f) s = parseMembers f s"
proof (induction f)
  case 0
  { case 1 show ?case by simp }
  { case 2 show ?case by simp }
  { case 3 show ?case by simp }
next
  case (Suc f)
  note ihv = Suc(1) [rule_format] and ihe = Suc(2) [rule_format] and ihm = Suc(3) [rule_format]
  {
    case 1
    show ?case
    proof (intro allI impI)
      fix s :: jsstring
      assume b: "2 * length s \<le> Suc f"
      show "parseValue (Suc (Suc f)) s = parseValue (Suc f) s"
      proof (cases s)
        case Nil
        then show ?thesis by simp
      next
        case (Cons c cs)
        have e: "\<And>d ds. skipWhiteSpace cs = d # ds \<Longrightarrow>
            parseElements (Suc f) (d # ds) = parseElements f (d # ds)"
        proof -
          fix d ds
          assume "skipWhiteSpace cs = d # ds"
          then have "Suc (length ds) \<le> length cs" by (rule skipWhiteSpace_Cons_le)
          then have "2 * length (d # ds) + 1 \<le> f" using b Cons by simp
          then show "parseElements (Suc f) (d # ds) = parseElements f (d # ds)" by (rule ihe)
        qed
        have m: "\<And>d ds. skipWhiteSpace cs = d # ds \<Longrightarrow>
            parseMembers (Suc f) (d # ds) = parseMembers f (d # ds)"
        proof -
          fix d ds
          assume "skipWhiteSpace cs = d # ds"
          then have "Suc (length ds) \<le> length cs" by (rule skipWhiteSpace_Cons_le)
          then have "2 * length (d # ds) + 1 \<le> f" using b Cons by simp
          then show "parseMembers (Suc f) (d # ds) = parseMembers f (d # ds)" by (rule ihm)
        qed
        show ?thesis
          unfolding parseValue.simps(2) [of "Suc f"] parseValue.simps(2) [of f] Cons list.case
          by (cases "skipWhiteSpace cs") (simp_all add: e m del: parseElements.simps parseMembers.simps)
      qed
    qed
  }
  {
    case 2
    show ?case
    proof (intro allI impI)
      fix s :: jsstring
      assume b: "2 * length s + 1 \<le> Suc f"
      have v: "parseValue (Suc f) s = parseValue f s" using b by (intro ihv) simp
      have e: "\<And>x r c cs. parseValue f s = Some (x, r) \<Longrightarrow> skipWhiteSpace r = c # cs \<Longrightarrow>
          parseElements (Suc f) (skipWhiteSpace cs) = parseElements f (skipWhiteSpace cs)"
      proof -
        fix x r c cs
        assume "parseValue f s = Some (x, r)" "skipWhiteSpace r = c # cs"
        then have "length r < length s" "Suc (length cs) \<le> length r"
          using parse_length(1) [rule_format] skipWhiteSpace_Cons_le by blast+
        then have "2 * length (skipWhiteSpace cs) + 1 \<le> f"
          using b length_skipWhiteSpace [of cs] by simp
        then show "parseElements (Suc f) (skipWhiteSpace cs) = parseElements f (skipWhiteSpace cs)"
          by (rule ihe)
      qed
      show "parseElements (Suc (Suc f)) s = parseElements (Suc f) s"
        unfolding parseElements.simps(2) [of "Suc f" s] parseElements.simps(2) [of f s] v
        by (auto split: option.splits list.splits simp: e
            simp del: parseElements.simps parseValue.simps)
    qed
  }
  {
    case 3
    show ?case
    proof (intro allI impI)
      fix s :: jsstring
      assume b: "2 * length s + 1 \<le> Suc f"
      show "parseMembers (Suc (Suc f)) s = parseMembers (Suc f) s"
      proof (cases s)
        case Nil
        then show ?thesis by simp
      next
        case (Cons c cs)
        have v: "\<And>k r d ds. parseStringChars cs = Some (k, r) \<Longrightarrow> skipWhiteSpace r = d # ds \<Longrightarrow>
            parseValue (Suc f) (skipWhiteSpace ds) = parseValue f (skipWhiteSpace ds)"
        proof -
          fix k r d ds
          assume "parseStringChars cs = Some (k, r)" "skipWhiteSpace r = d # ds"
          then have "length r < length cs" "Suc (length ds) \<le> length r"
            using parseStringChars_length skipWhiteSpace_Cons_le by blast+
          then have "2 * length (skipWhiteSpace ds) \<le> f"
            using b Cons length_skipWhiteSpace [of ds] by simp
          then show "parseValue (Suc f) (skipWhiteSpace ds) = parseValue f (skipWhiteSpace ds)"
            by (rule ihv)
        qed
        have m: "\<And>k r d ds x r' e es. parseStringChars cs = Some (k, r) \<Longrightarrow>
            skipWhiteSpace r = d # ds \<Longrightarrow> parseValue f (skipWhiteSpace ds) = Some (x, r') \<Longrightarrow>
            skipWhiteSpace r' = e # es \<Longrightarrow>
            parseMembers (Suc f) (skipWhiteSpace es) = parseMembers f (skipWhiteSpace es)"
        proof -
          fix k r d ds x r' e es
          assume "parseStringChars cs = Some (k, r)" "skipWhiteSpace r = d # ds"
            "parseValue f (skipWhiteSpace ds) = Some (x, r')" "skipWhiteSpace r' = e # es"
          then have "length r < length cs" "Suc (length ds) \<le> length r"
            "length r' < length (skipWhiteSpace ds)" "Suc (length es) \<le> length r'"
            using parseStringChars_length skipWhiteSpace_Cons_le parse_length(1) [rule_format]
            by blast+
          then have "2 * length (skipWhiteSpace es) + 1 \<le> f"
            using b Cons length_skipWhiteSpace [of ds] length_skipWhiteSpace [of es] by simp
          then show "parseMembers (Suc f) (skipWhiteSpace es) = parseMembers f (skipWhiteSpace es)"
            by (rule ihm)
        qed
        show ?thesis
          unfolding Cons parseMembers.simps(2) [of "Suc f" "c # cs"]
            parseMembers.simps(2) [of f "c # cs"] list.case
          by (auto split: option.splits list.splits simp: v m
              simp del: parseMembers.simps parseValue.simps)
      qed
    qed
  }
qed

lemma parseValue_more_fuel:
  "2 * length s \<le> f \<Longrightarrow> parseValue (f + n) s = parseValue f s"
proof (induction n)
  case 0
  show ?case by simp
next
  case (Suc n)
  note step = parse_fuel(1) [rule_format]
  have "parseValue (Suc (f + n)) s = parseValue (f + n) s"
    using Suc.prems by (intro step) simp
  then show ?case using Suc by simp
qed

lemma JSON_parse_fuel:
  assumes "2 * length t + 1 \<le> f"
  shows "(case parseValue f (skipWhiteSpace t) of
            None \<Rightarrow> Inl SyntaxError
          | Some (v, r) \<Rightarrow> if skipWhiteSpace r = [] then Inr v else Inl SyntaxError) =
         JSON_parse t"
proof -
  have "2 * length (skipWhiteSpace t) \<le> 2 * length t + 1"
    using length_skipWhiteSpace [of t] by simp
  then have "parseValue (2 * length t + 1 + (f - (2 * length t + 1))) (skipWhiteSpace t) =
      parseValue (2 * length t + 1) (skipWhiteSpace t)"
    by (rule parseValue_more_fuel)
  then show ?thesis using assms by (simp add: JSON_parse_def)
qed

section \<open>JSON.parse after JSON.stringify\<close>

subsection \<open>Strings\<close>





declare parseStringChars.simps(2) [simp del]






lemma parseStringChars_quoteJSONString:
  "quoteJSONString s @ rest = 0x22 # quoteUnits s @ 0x22 # rest"
  by (simp add: quoteJSONString_def)

subsection \<open>Numbers\<close>





lemma digitsValue_Nil: "digitsValue [] = 0"
  by (simp add: digitsValue_def)




















lemma signed_value: "(if m < 0 then - 1 else 1) * int (nat \<bar>m\<bar>) = (m :: int)"
  by simp



subsection \<open>Values\<close>



lemma skipWhiteSpace_units [simp]:
  "skipWhiteSpace (0x5D # s) = 0x5D # s" "skipWhiteSpace (0x7D # s) = 0x7D # s"
  "skipWhiteSpace (0x2C # s) = 0x2C # s" "skipWhiteSpace (0x3A # s) = 0x3A # s"
  "skipWhiteSpace [] = []"
  by (simp_all add: skipWhiteSpace_def isWhiteSpace_def)


lemma valueStart_Cons:
  "valueStart (c # s) \<longleftrightarrow> \<not> isWhiteSpace c \<and> c \<noteq> 0x5D \<and> c \<noteq> 0x7D"
  by (simp add: valueStart_def)








lemma parseValue_empty_array: "parseValue (Suc f) (0x5B # 0x5D # rest) = Some (JArr [], rest)"
  by simp

lemma parseValue_empty_object: "parseValue (Suc f) (0x7B # 0x7D # rest) = Some (JObj [], rest)"
  by simp













lemma valueStart_nonempty: "valueStart s \<Longrightarrow> s \<noteq> []"
  by (auto simp: valueStart_def)





section \<open>Decoding after encoding\<close>















section \<open>The examples of the documentation\<close>

text \<open>
  The calls that the README and the specification give as examples, evaluated: two
  paths with route parameters, a path with a search parameter that is an object, the
  parameters read back for a catch-all route, and the empty string, which is not
  encoded.
\<close>

lemma documented_examples:
  "path \<lparr>route = js ''/product/[productID]'', searchParams = None,
         routeParams = Some [(js ''productID'', JNum (Finite 23 0))]\<rparr> =
     Inr (js ''/product/23'')"
  "path \<lparr>route = js ''/dashboard/[...options]'', searchParams = None,
         routeParams = Some [(js ''options'',
           JArr [JStr (js ''deployments''), JNum (Finite 2 0)])]\<rparr> =
     Inr (js ''/dashboard/deployments/2'')"
  "path \<lparr>route = js ''/product/[productID]'',
         searchParams = Some [(js ''userInfo'',
           JObj [(js ''name'', JStr (js ''bob'')), (js ''age'', JNum (Finite 23 0))])],
         routeParams = Some [(js ''productID'', JNum (Finite 23 0))]\<rparr> =
     Inr (js ''/product/23?userInfo=%7B%22name%22%3A%22bob%22%2C%22age%22%3A23%7D'')"
  "getDynamicRouteParams (js ''/dashboard/[...options]'')
     [(js ''options'', QArray [js ''deployments'', js ''2''])] =
     Inr [(js ''options'', JArr [JStr (js ''deployments''), JNum (Finite 2 0)])]"
  "encodeValue (JStr []) = Inl InvalidValue"
  by code_simp+

end
